theory Spec2Isabelle
  imports Complex_Main "HOL-Library.List_Lexorder" "HOL-Library.Char_ord"
begin

section \<open>The geospatial collection of tile38\<close>

text \<open>
  A shallow embedding of \<^verbatim>\<open>controller/collection/collection.go\<close> and of the
  \<^verbatim>\<open>Feature\<close> object of \<^verbatim>\<open>geojson/feature.go\<close>.

  \<^item> Coordinates are values of the type \<open>float64\<close> below: the finite doubles, the two
    infinities and NaN, with the arithmetic of IEEE 754 (round to nearest, ties to even).
    Field values are only stored and compared; they are modelled by the real number they
    denote. Go's \<^verbatim>\<open>int\<close> counters are \<open>int\<close> and the \<^verbatim>\<open>uint64\<close> cursors \<open>nat\<close>.
  \<^item> A Go string is a byte sequence, here a \<open>string\<close>; \<open><\<close> on strings is the
    lexicographic order on bytes, as in Go.
  \<^item> A panic (nil dereference, index out of range) aborts the call: the model returns
    \<open>Inl\<close> of the panic.
  \<^item> A nil slice of field values is the empty list. The field names passed to
    \<^verbatim>\<open>ReplaceOrInsert\<close> are a \<open>string list option\<close>, since the code tests that slice
    against nil.
\<close>

subsection \<open>Errors\<close>

text \<open>A panic aborts the call; an \<open>error\<close> is a value the call returns.\<close>

datatype panic =
    NilDereference
  | IndexOutOfRange
  | LenOutOfRange

datatype error =
    NoBytesInput
  | DecodeError string

subsection \<open>The type \<^verbatim>\<open>float64\<close>\<close>

datatype float64 = Fin real | PInf | NInf | NaN

text \<open>
  \<open>round_f64\<close> rounds a real number to the nearest double: \<open>e\<close> is the exponent of the
  binade (at least \<open>-1022\<close>, where the subnormal numbers begin), \<open>u\<close> the distance of
  neighbouring doubles there, and a tie goes to the even multiple of \<open>u\<close>; a result of
  magnitude \<open>2 ^ 1024\<close> or more is an infinity.
\<close>

definition pow2 :: "int \<Rightarrow> real" where
  "pow2 e = (if 0 \<le> e then 2 ^ nat e else 1 / 2 ^ nat (- e))"

function ilog_up :: "real \<Rightarrow> int" where
  "ilog_up a = (if 2 \<le> a then ilog_up (a / 2) + 1 else 0)"
  by pat_completeness auto
termination
proof (relation "measure (\<lambda>a. nat \<lfloor>a\<rfloor>)")
  show "wf (measure (\<lambda>a::real. nat \<lfloor>a\<rfloor>))" by simp
next
  fix a :: real
  assume a: "2 \<le> a"
  then have "a / 2 \<le> a - 1" by simp
  then have "\<lfloor>a / 2\<rfloor> \<le> \<lfloor>a - 1\<rfloor>" by (rule floor_mono)
  moreover have "\<lfloor>a - 1\<rfloor> = \<lfloor>a\<rfloor> - 1" by simp
  moreover have "2 \<le> \<lfloor>a\<rfloor>" using a by (simp add: le_floor_iff)
  ultimately show "(a / 2, a) \<in> measure (\<lambda>a. nat \<lfloor>a\<rfloor>)" by simp
qed

function ilog_down :: "real \<Rightarrow> int" where
  "ilog_down a = (if 0 < a \<and> a < 1 then ilog_down (2 * a) - 1 else 0)"
  by pat_completeness auto
termination
proof (relation "measure (\<lambda>a. nat \<lceil>1 / a\<rceil>)")
  show "wf (measure (\<lambda>a::real. nat \<lceil>1 / a\<rceil>))" by simp
next
  fix a :: real
  assume a: "0 < a \<and> a < 1"
  then have b: "1 < 1 / a" by simp
  have h: "1 / (2 * a) = (1 / a) / 2" by simp
  have "\<lceil>(1 / a) / 2\<rceil> < \<lceil>1 / a\<rceil>"
  proof (cases "1 / a \<le> 2")
    case True
    then have "\<lceil>(1 / a) / 2\<rceil> \<le> 1" by (simp add: ceiling_le_iff)
    moreover have "1 < \<lceil>1 / a\<rceil>" using b by (simp add: less_ceiling_iff)
    ultimately show ?thesis by linarith
  next
    case False
    then have "(1 / a) / 2 \<le> 1 / a - 1" by simp
    then have "\<lceil>(1 / a) / 2\<rceil> \<le> \<lceil>1 / a - 1\<rceil>" by (rule ceiling_mono)
    then show ?thesis by simp
  qed
  then have "\<lceil>1 / (2 * a)\<rceil> < \<lceil>1 / a\<rceil>" by (simp only: h)
  moreover have "0 < \<lceil>1 / a\<rceil>" using a by (simp add: less_ceiling_iff)
  ultimately have "nat \<lceil>1 / (2 * a)\<rceil> < nat \<lceil>1 / a\<rceil>" by linarith
  then show "(2 * a, a) \<in> measure (\<lambda>a. nat \<lceil>1 / a\<rceil>)" by (simp only: in_measure)
qed

declare ilog_up.simps [simp del] ilog_down.simps [simp del]

definition round_f64 :: "real \<Rightarrow> float64" where
  "round_f64 x =
     (if x = 0 then Fin 0
      else (let a = \<bar>x\<bar>;
                e = max (if 1 \<le> a then ilog_up a else ilog_down a) (- 1022);
                u = pow2 (e - 52);
                q = a / u;
                f = \<lfloor>q\<rfloor>;
                d = q - real_of_int f;
                n = (if d < 1 / 2 then f else if 1 / 2 < d then f + 1
                     else if even f then f else f + 1);
                r = real_of_int n * u
            in if pow2 1024 \<le> r then (if 0 < x then PInf else NInf)
               else Fin (if 0 < x then r else - r)))"

text \<open>
  The operations the code applies to coordinates. The sign of a zero is not kept: the only
  division of the code has the divisor \<^verbatim>\<open>float64(split)\<close>, which is never a negative zero.
\<close>

fun fneg :: "float64 \<Rightarrow> float64" where
  "fneg (Fin a) = Fin (- a)"
| "fneg PInf = NInf"
| "fneg NInf = PInf"
| "fneg NaN = NaN"

fun fadd :: "float64 \<Rightarrow> float64 \<Rightarrow> float64" where
  "fadd (Fin a) (Fin b) = round_f64 (a + b)"
| "fadd NaN y = NaN"
| "fadd x NaN = NaN"
| "fadd PInf NInf = NaN"
| "fadd NInf PInf = NaN"
| "fadd PInf y = PInf"
| "fadd NInf y = NInf"
| "fadd x PInf = PInf"
| "fadd x NInf = NInf"

definition fsub :: "float64 \<Rightarrow> float64 \<Rightarrow> float64" where
  "fsub x y = fadd x (fneg y)"

fun fdiv :: "float64 \<Rightarrow> float64 \<Rightarrow> float64" where
  "fdiv (Fin a) (Fin b) =
     (if b = 0 then (if a = 0 then NaN else if 0 < a then PInf else NInf)
      else round_f64 (a / b))"
| "fdiv NaN y = NaN"
| "fdiv x NaN = NaN"
| "fdiv (Fin a) y = Fin 0"
| "fdiv PInf (Fin b) = (if 0 \<le> b then PInf else NInf)"
| "fdiv NInf (Fin b) = (if 0 \<le> b then NInf else PInf)"
| "fdiv x y = NaN"

fun fless :: "float64 \<Rightarrow> float64 \<Rightarrow> bool" where
  "fless (Fin a) (Fin b) = (a < b)"
| "fless NaN y = False"
| "fless x NaN = False"
| "fless NInf NInf = False"
| "fless NInf y = True"
| "fless x NInf = False"
| "fless PInf y = False"
| "fless x PInf = True"

definition float64_of_int :: "int \<Rightarrow> float64" where
  "float64_of_int i = round_f64 (real_of_int i)"

fun fle :: "float64 \<Rightarrow> float64 \<Rightarrow> bool" where
  "fle (Fin a) (Fin b) = (a \<le> b)"
| "fle NaN y = False"
| "fle x NaN = False"
| "fle NInf y = True"
| "fle x PInf = True"
| "fle x y = False"

subsection \<open>Objects (geojson)\<close>

record Position =
  X :: float64
  Y :: float64
  Z :: float64

record BBox =
  MinP :: Position
  MaxP :: Position

text \<open>
  \<^verbatim>\<open>geojson.Object\<close> is an interface. \<open>Feature\<close> is the struct of feature.go; its
  \<open>Geometry\<close> is an interface value and \<open>BBox\<close> a pointer, both may be nil.
  Every other variant of the geometry library (Point, Polygon, String, ...) is outside the
  source at hand and is represented by the results of its capability methods.
\<close>

datatype object =
    Feature (Geometry: "object option") (FBBox: "BBox option") (Properties: string)
  | Other (oIsGeometry: bool) (oPositionCount: int) (oWeight: int) (oBBox: BBox)
      (oString: string)

fun IsGeometry :: "object \<Rightarrow> bool" where
  "IsGeometry (Feature g b p) = True"
| "IsGeometry (Other ig pc w bb s) = ig"

fun PositionCount :: "object \<Rightarrow> panic + int" where
  "PositionCount (Feature g b p) =
     (case g of
        None \<Rightarrow> Inl NilDereference
      | Some geo \<Rightarrow>
          (case PositionCount geo of
             Inl e \<Rightarrow> Inl e
           | Inr res \<Rightarrow> if b \<noteq> None then Inr (2 + res) else Inr res))"
| "PositionCount (Other ig pc w bb s) = Inr pc"

text \<open>\<open>sizeofPosition\<close> is a constant of the geojson package; it is the parameter \<open>sz\<close>.\<close>

fun Weight :: "int \<Rightarrow> object \<Rightarrow> panic + int" where
  "Weight sz (Feature g b p) =
     (case PositionCount (Feature g b p) of
        Inl e \<Rightarrow> Inl e
      | Inr n \<Rightarrow> Inr (n * sz + int (length p)))"
| "Weight sz (Other ig pc w bb s) = Inr w"

fun CalculatedBBox :: "object \<Rightarrow> panic + BBox" where
  "CalculatedBBox (Feature g b p) =
     (case b of
        Some bb \<Rightarrow> Inr bb
      | None \<Rightarrow> (case g of None \<Rightarrow> Inl NilDereference | Some geo \<Rightarrow> CalculatedBBox geo))"
| "CalculatedBBox (Other ig pc w bb s) = Inr bb"

subsection \<open>Items and the ordered tree\<close>

record itemT =
  item_id :: string
  item_object :: object
  item_fields :: "real list"

text \<open>
  The B-tree ordered by id (\<^verbatim>\<open>idOrdered\<close>) is the list of its items in ascending id
  order. \<^verbatim>\<open>Get\<close> and \<^verbatim>\<open>Delete\<close> look an item up by the key of a probe item,
  \<^verbatim>\<open>ReplaceOrInsert\<close> replaces the item of equal key or inserts at the key's place.
\<close>

definition btree_Get :: "itemT list \<Rightarrow> string \<Rightarrow> itemT option" where
  "btree_Get t k = find (\<lambda>it. item_id it = k) t"

definition btree_Delete :: "itemT list \<Rightarrow> string \<Rightarrow> itemT list" where
  "btree_Delete t k = filter (\<lambda>it. item_id it \<noteq> k) t"

definition btree_ReplaceOrInsert :: "itemT list \<Rightarrow> itemT \<Rightarrow> itemT list" where
  "btree_ReplaceOrInsert t item = insort_key item_id item (btree_Delete t (item_id item))"

subsection \<open>The collection\<close>

text \<open>
  \<open>items\<close> is the id-ordered tree and owns the items. The value-ordered tree \<open>values_tree\<close> (the field \<^verbatim>\<open>values\<close>)
  and the spatial index \<open>index\<close> hold pointers to the same items; a pointer is modelled
  by the id of its item, which is unique in the collection. The order inside \<open>values_tree\<close>
  (by \<^verbatim>\<open>String()\<close>, then id) and inside the R-tree is not modelled.
  \<open>fieldMap\<close> is the map from field name to slot, kept as the list of its entries.
\<close>

record Collection =
  items :: "itemT list"
  values_tree :: "string list"
  index :: "string list"
  fieldMap :: "(string \<times> nat) list"
  weight :: int
  points :: int
  objects :: int
  nobjects :: int

definition New :: Collection where
  "New = \<lparr>items = [], values_tree = [], index = [], fieldMap = [],
          weight = 0, points = 0, objects = 0, nobjects = 0\<rparr>"

definition Count :: "Collection \<Rightarrow> int" where
  "Count c = objects c + nobjects c"

definition PointCount :: "Collection \<Rightarrow> int" where
  "PointCount c = points c"

definition TotalWeight :: "Collection \<Rightarrow> int" where
  "TotalWeight c = weight c"

text \<open>Writing through an item pointer: the stored item of that id is replaced.\<close>

definition put_item :: "Collection \<Rightarrow> itemT \<Rightarrow> Collection" where
  "put_item c item =
     c\<lparr>items := map (\<lambda>it. if item_id it = item_id item then item else it) (items c)\<rparr>"

text \<open>
  \<^verbatim>\<open>index.Insert\<close> and \<^verbatim>\<open>index.Remove\<close> key an item by \<^verbatim>\<open>item.Rect()\<close>, which calls
  \<^verbatim>\<open>CalculatedBBox\<close> of its object. A panic leaves the collection as it is at that
  point: \<open>Inl\<close> carries the panic and that state.
\<close>

definition remove ::
  "int \<Rightarrow> Collection \<Rightarrow> string \<Rightarrow> (panic \<times> Collection) + (Collection \<times> itemT option)" where
  "remove sz c k =
     (case btree_Get (items c) k of
        None \<Rightarrow> Inr (c, None)
      | Some item \<Rightarrow>
          (let c1 = c\<lparr>items := btree_Delete (items c) k\<rparr>
           in case (if IsGeometry (item_object item)
                    then (case CalculatedBBox (item_object item) of
                            Inl e \<Rightarrow> Inl (e, c1)
                          | Inr r \<Rightarrow> Inr (c1\<lparr>index := removeAll (item_id item) (index c1),
                                             objects := objects c1 - 1\<rparr>))
                    else Inr (c1\<lparr>values_tree := removeAll (item_id item) (values_tree c1),
                                 nobjects := nobjects c1 - 1\<rparr>)) of
                Inl e \<Rightarrow> Inl e
              | Inr c2 \<Rightarrow>
                  (let c3 = c2\<lparr>weight := weight c2 - int (length (item_fields item)) * 8\<rparr>
                   in case Weight sz (item_object item) of
                        Inl e \<Rightarrow> Inl (e, c3)
                      | Inr w \<Rightarrow>
                          (let c4 = c3\<lparr>weight := weight c3 - (w + int (length (item_id item)))\<rparr>
                           in case PositionCount (item_object item) of
                                Inl e \<Rightarrow> Inl (e, c4)
                              | Inr pc \<Rightarrow> Inr (c4\<lparr>points := points c4 - pc\<rparr>, Some item)))))"

definition insert_item ::
  "int \<Rightarrow> Collection \<Rightarrow> string \<Rightarrow> object \<Rightarrow> (panic \<times> Collection) + (Collection \<times> itemT)" where
  "insert_item sz c k obj =
     (let item = \<lparr>item_id = k, item_object = obj, item_fields = []\<rparr>
      in case (if IsGeometry obj
               then (case CalculatedBBox obj of
                       Inl e \<Rightarrow> Inl (e, c)
                     | Inr r \<Rightarrow> Inr (c\<lparr>index := index c @ [k], objects := objects c + 1\<rparr>))
               else Inr (c\<lparr>values_tree := removeAll k (values_tree c) @ [k],
                           nobjects := nobjects c + 1\<rparr>)) of
           Inl e \<Rightarrow> Inl e
         | Inr c1 \<Rightarrow>
             (let c2 = c1\<lparr>items := btree_ReplaceOrInsert (items c1) item\<rparr>
              in case Weight sz obj of
                   Inl e \<Rightarrow> Inl (e, c2)
                 | Inr w \<Rightarrow>
                     (let c3 = c2\<lparr>weight := weight c2 + (w + int (length k))\<rparr>
                      in case PositionCount obj of
                           Inl e \<Rightarrow> Inl (e, c3)
                         | Inr pc \<Rightarrow> Inr (c3\<lparr>points := points c3 + pc\<rparr>, item))))"

text \<open>The loop of \<^verbatim>\<open>setField\<close> that appends zeros while \<open>idx >= len(fields)\<close>.\<close>

function extend_fields :: "nat \<Rightarrow> real list \<Rightarrow> real list" where
  "extend_fields idx fs = (if idx \<ge> length fs then extend_fields idx (fs @ [0]) else fs)"
  by pat_completeness auto
termination
  by (relation "measure (\<lambda>(idx, fs). Suc idx - length fs)") auto

declare extend_fields.simps [simp del]

definition setField ::
  "Collection \<Rightarrow> itemT \<Rightarrow> string \<Rightarrow> real \<Rightarrow> Collection \<times> itemT \<times> bool" where
  "setField c item field v =
     (let (idx, c1) = (case map_of (fieldMap c) field of
                         Some i \<Rightarrow> (i, c)
                       | None \<Rightarrow> (length (fieldMap c),
                                  c\<lparr>fieldMap := fieldMap c @ [(field, length (fieldMap c))]\<rparr>));
          c2 = c1\<lparr>weight := weight c1 - int (length (item_fields item)) * 8\<rparr>;
          fs = extend_fields idx (item_fields item);
          c3 = c2\<lparr>weight := weight c2 + int (length fs) * 8\<rparr>;
          ovalue = fs ! idx;
          item' = item\<lparr>item_fields := fs[idx := v]\<rparr>
      in (put_item c3 item', item', ovalue \<noteq> v))"

text \<open>
  The loop \<^verbatim>\<open>for i, field := range fields { c.setField(nitem, field, values[i]) }\<close>;
  \<^verbatim>\<open>values[i]\<close> panics when \<open>i\<close> is out of range.
\<close>

fun setFields ::
  "Collection \<Rightarrow> itemT \<Rightarrow> string list \<Rightarrow> real list \<Rightarrow> nat
   \<Rightarrow> (panic \<times> Collection) + (Collection \<times> itemT)" where
  "setFields c item [] vs i = Inr (c, item)"
| "setFields c item (f # fs) vs i =
     (if i < length vs
      then (case setField c item f (vs ! i) of (c', item', u) \<Rightarrow> setFields c' item' fs vs (Suc i))
      else Inl (IndexOutOfRange, c))"

text \<open>
  The slice \<^verbatim>\<open>oldFields\<close> that \<^verbatim>\<open>ReplaceOrInsert\<close> returns is the one it has given to the new
  item (\<^verbatim>\<open>nitem.fields = oldFields\<close>): both have the same array until an \<^verbatim>\<open>append\<close> of
  \<^verbatim>\<open>setField\<close> finds it full and moves the fields of the item to a new one. A write of
  \<^verbatim>\<open>setField\<close> before that is a write into \<^verbatim>\<open>oldFields\<close>. When this happens depends on the
  capacity \<open>cap\<close> of the array, which the model does not keep; \<open>old_fields_view\<close> is what the
  caller reads in \<^verbatim>\<open>oldFields\<close>, of length \<open>n\<close>, after the loop, for a capacity \<open>cap\<close>.
  \<open>slot_of\<close> is the slot \<^verbatim>\<open>setField\<close> uses for a name.
\<close>

definition slot_of :: "(string \<times> nat) list \<Rightarrow> string \<Rightarrow> nat" where
  "slot_of fm field = (case map_of fm field of Some i \<Rightarrow> i | None \<Rightarrow> length fm)"

fun old_fields_view ::
  "nat \<Rightarrow> nat \<Rightarrow> Collection \<Rightarrow> itemT \<Rightarrow> string list \<Rightarrow> real list \<Rightarrow> nat \<Rightarrow> real list" where
  "old_fields_view cap n c item [] vs i = take n (item_fields item)"
| "old_fields_view cap n c item (f # fs) vs i =
     (if cap \<le> slot_of (fieldMap c) f then take n (item_fields item)
      else (case setField c item f (vs ! i) of
              (c', item', u) \<Rightarrow> old_fields_view cap n c' item' fs vs (Suc i)))"

text \<open>
  The results are the old object, \<^verbatim>\<open>oldFields\<close> as the caller reads it after the call (a
  function of the capacity of its array, which is at least its length), and the fields of
  the new item.
\<close>

definition ReplaceOrInsert ::
  "int \<Rightarrow> Collection \<Rightarrow> string \<Rightarrow> object \<Rightarrow> string list option \<Rightarrow> real list
   \<Rightarrow> (panic \<times> Collection) +
     (Collection \<times> object option \<times> (nat \<Rightarrow> real list) \<times> real list)" where
  "ReplaceOrInsert sz c k obj flds vals =
     (case remove sz c k of
        Inl e \<Rightarrow> Inl e
      | Inr (c1, old) \<Rightarrow>
          (case insert_item sz c1 k obj of
             Inl e \<Rightarrow> Inl e
           | Inr (c2, nitem) \<Rightarrow>
               (let (oldObject, oldFields, nitem1, c3) =
                      (case old of
                         Some oldItem \<Rightarrow>
                           (let n1 = nitem\<lparr>item_fields := item_fields oldItem\<rparr>
                            in (Some (item_object oldItem), item_fields oldItem, n1,
                                put_item (c2\<lparr>weight := weight c2 + int (length (item_fields n1)) * 8\<rparr>) n1))
                       | None \<Rightarrow> (None, [], nitem, c2))
                in if flds = None \<and> length vals > 0
                   then (let c4 = c3\<lparr>weight := weight c3 - int (length (item_fields nitem1)) * 8\<rparr>;
                             n2 = nitem1\<lparr>item_fields := vals\<rparr>;
                             c5 = c4\<lparr>weight := weight c4 + int (length (item_fields n2)) * 8\<rparr>
                         in Inr (put_item c5 n2, oldObject, (\<lambda>cap. oldFields), item_fields n2))
                   else (case setFields c3 nitem1 (case flds of None \<Rightarrow> [] | Some fs \<Rightarrow> fs) vals 0 of
                           Inl e \<Rightarrow> Inl e
                         | Inr (c4, n2) \<Rightarrow>
                             Inr (c4, oldObject,
                                  (\<lambda>cap. old_fields_view (max cap (length oldFields)) (length oldFields)
                                            c3 nitem1 (case flds of None \<Rightarrow> [] | Some fs \<Rightarrow> fs) vals 0),
                                  item_fields n2)))))"

definition Remove ::
  "int \<Rightarrow> Collection \<Rightarrow> string
   \<Rightarrow> (panic \<times> Collection) + (Collection \<times> object option \<times> real list \<times> bool)" where
  "Remove sz c k =
     (case remove sz c k of
        Inl e \<Rightarrow> Inl e
      | Inr (c', None) \<Rightarrow> Inr (c', None, [], False)
      | Inr (c', Some item) \<Rightarrow> Inr (c', Some (item_object item), item_fields item, True))"

definition Get :: "Collection \<Rightarrow> string \<Rightarrow> object option \<times> real list \<times> bool" where
  "Get c k =
     (case btree_Get (items c) k of
        None \<Rightarrow> (None, [], False)
      | Some item \<Rightarrow> (Some (item_object item), item_fields item, True))"

definition SetField ::
  "Collection \<Rightarrow> string \<Rightarrow> string \<Rightarrow> real
   \<Rightarrow> Collection \<times> object option \<times> real list \<times> bool \<times> bool" where
  "SetField c k field v =
     (case btree_Get (items c) k of
        None \<Rightarrow> (c, None, [], False, False)
      | Some item \<Rightarrow>
          (case setField c item field v of
             (c', item', updated) \<Rightarrow> (c', Some (item_object item'), item_fields item', updated, True)))"

definition FieldMap :: "Collection \<Rightarrow> (string \<times> nat) list" where
  "FieldMap c = fieldMap c"

text \<open>
  \<^verbatim>\<open>FieldArr\<close>: an array of \<open>len(fieldMap)\<close> empty strings, then \<^verbatim>\<open>arr[i] = field\<close>
  for every entry; the assignment panics when \<open>i\<close> is out of range.
\<close>

fun fill_arr :: "(string \<times> nat) list \<Rightarrow> string list \<Rightarrow> panic + string list" where
  "fill_arr [] arr = Inr arr"
| "fill_arr ((field, i) # es) arr =
     (if i < length arr then fill_arr es (arr[i := field]) else Inl IndexOutOfRange)"

definition FieldArr :: "Collection \<Rightarrow> panic + string list" where
  "FieldArr c = fill_arr (fieldMap c) (replicate (length (fieldMap c)) [])"

subsection \<open>Scans\<close>

text \<open>
  An iterator is a callback of the caller; it may have an effect, which is a state \<open>'s\<close>
  that the callback reads and returns. It is applied to the item (the code passes the
  item's id, object and fields).

  \<open>scan_loop\<close> is the traversal of a tree with the closure \<^verbatim>\<open>iter\<close> of \<^verbatim>\<open>Scan\<close>: the
  counter \<open>i\<close> counts every item reached, the first \<open>cursor\<close> items are skipped, and the
  traversal stops after the first item for which the iterator returns false.
\<close>

type_synonym 's iterator = "itemT \<Rightarrow> 's \<Rightarrow> bool \<times> 's"

fun scan_loop :: "nat \<Rightarrow> 's iterator \<Rightarrow> itemT list \<Rightarrow> nat \<Rightarrow> 's \<Rightarrow> nat \<times> 's" where
  "scan_loop cursor iterator [] i s = (i, s)"
| "scan_loop cursor iterator (item # rest) i s =
     (case (if i \<ge> cursor then iterator item s else (True, s)) of
        (active, s') \<Rightarrow>
          if active then scan_loop cursor iterator rest (Suc i) s' else (Suc i, s'))"

definition Scan :: "Collection \<Rightarrow> nat \<Rightarrow> bool \<Rightarrow> 's iterator \<Rightarrow> 's \<Rightarrow> nat \<times> 's" where
  "Scan c cursor desc iterator s =
     scan_loop cursor iterator (if desc then rev (items c) else items c) 0 s"

subsection \<open>Snapshot codec\<close>

record Row =
  Row_Id :: string
  Row_Obj :: string
  Row_Values :: "real list"

record Portable =
  Rows :: "Row list"
  Fields :: "string list option"

text \<open>
  \<^verbatim>\<open>MarshalJSON\<close> builds the \<^verbatim>\<open>Portable\<close> value and hands it to \<^verbatim>\<open>json.Marshal\<close>.
  \<open>objJSON\<close> is \<^verbatim>\<open>obj.MarshalJSON()\<close> of the geometry library (its error is dropped by
  the code), \<open>json_Marshal\<close> is \<^verbatim>\<open>json.Marshal\<close> of the Go library.
\<close>

definition portable_rows :: "(object \<Rightarrow> string) \<Rightarrow> Collection \<Rightarrow> int \<Rightarrow> Row list" where
  "portable_rows objJSON c colCount =
     snd (snd (Scan c 0 False
       (\<lambda>item (i, rows).
          if int i < colCount
          then (True, (Suc i, rows[i := \<lparr>Row_Id = item_id item,
                                          Row_Obj = objJSON (item_object item),
                                          Row_Values = item_fields item\<rparr>]))
          else (False, (i, rows)))
       (0, replicate (nat colCount) \<lparr>Row_Id = [], Row_Obj = [], Row_Values = []\<rparr>)))"

definition to_portable :: "(object \<Rightarrow> string) \<Rightarrow> Collection \<Rightarrow> panic + Portable" where
  "to_portable objJSON c =
     (let colCount = Count c
      in if colCount < 0 then Inl LenOutOfRange
         else (case FieldArr c of
                 Inl e \<Rightarrow> Inl e
               | Inr arr \<Rightarrow> Inr \<lparr>Rows = portable_rows objJSON c colCount, Fields = Some arr\<rparr>))"

definition MarshalJSON ::
  "(Portable \<Rightarrow> error + string) \<Rightarrow> (object \<Rightarrow> string) \<Rightarrow> Collection \<Rightarrow> panic + (error + string)" where
  "MarshalJSON json_Marshal objJSON c =
     (case to_portable objJSON c of Inl e \<Rightarrow> Inl e | Inr portable \<Rightarrow> Inr (json_Marshal portable))"

text \<open>
  The loop of \<^verbatim>\<open>UnmarshalJSON\<close> over the rows. \<open>ObjectAuto\<close> is the parser of the
  geometry library. On the first object that does not parse the call returns the error and
  leaves the collection as the rows before have made it.
\<close>

fun restore_rows ::
  "(string \<Rightarrow> error + object) \<Rightarrow> int \<Rightarrow> Collection \<Rightarrow> Row list \<Rightarrow> string list option
   \<Rightarrow> (panic \<times> Collection) + (Collection \<times> error option)" where
  "restore_rows ObjectAuto sz c [] flds = Inr (c, None)"
| "restore_rows ObjectAuto sz c (row # rest) flds =
     (case ObjectAuto (Row_Obj row) of
        Inl err \<Rightarrow> Inr (c, Some err)
      | Inr obj \<Rightarrow>
          (case ReplaceOrInsert sz c (Row_Id row) obj flds (Row_Values row) of
             Inl e \<Rightarrow> Inl e
           | Inr (c', res) \<Rightarrow> restore_rows ObjectAuto sz c' rest flds))"

text \<open>
  The input \<open>b\<close> is a byte slice, \<open>None\<close> when it is nil. \<open>json_Unmarshal\<close> is
  \<^verbatim>\<open>json.Unmarshal\<close> of the Go library, given the bytes and the \<^verbatim>\<open>Portable\<close> value it
  fills; a member that the document does not have keeps the value it had, so a document
  without \<^verbatim>\<open>fields\<close> leaves \<open>Fields\<close> nil.
\<close>

definition UnmarshalJSON ::
  "(string \<Rightarrow> Portable \<Rightarrow> error + Portable) \<Rightarrow> (string \<Rightarrow> error + object) \<Rightarrow> int
   \<Rightarrow> Collection \<Rightarrow> string option \<Rightarrow> (panic \<times> Collection) + (Collection \<times> error option)" where
  "UnmarshalJSON json_Unmarshal ObjectAuto sz c b =
     (case b of
        None \<Rightarrow> Inr (c, Some NoBytesInput)
      | Some bytes \<Rightarrow>
          (case json_Unmarshal bytes \<lparr>Rows = [], Fields = None\<rparr> of
             Inl err \<Rightarrow> Inr (c, Some err)
           | Inr portable \<Rightarrow> restore_rows ObjectAuto sz c (Rows portable) (Fields portable)))"

subsection \<open>Spatial queries\<close>

text \<open>
  The geometry layer and the R-tree are outside the source at hand; what the queries use
  of them is the record \<open>geo\<close>: the predicates of an object, \<^verbatim>\<open>bbox.Sparse\<close>,
  \<^verbatim>\<open>BBoxesFromCenter\<close>, and \<open>g_hit\<close>, the test by which the R-tree selects the items
  of a search box.
\<close>

record geo =
  g_Within :: "object \<Rightarrow> object \<Rightarrow> bool"
  g_Intersects :: "object \<Rightarrow> object \<Rightarrow> bool"
  g_WithinBBox :: "object \<Rightarrow> BBox \<Rightarrow> bool"
  g_IntersectsBBox :: "object \<Rightarrow> BBox \<Rightarrow> bool"
  g_Nearby :: "object \<Rightarrow> Position \<Rightarrow> float64 \<Rightarrow> bool"
  g_Sparse :: "BBox \<Rightarrow> nat \<Rightarrow> BBox list"
  g_BBoxesFromCenter :: "float64 \<Rightarrow> float64 \<Rightarrow> float64 \<Rightarrow> BBox"
  g_hit :: "BBox \<Rightarrow> object \<Rightarrow> bool"

text \<open>The items the index points to, in the order the R-tree reaches them.\<close>

definition index_items :: "Collection \<Rightarrow> itemT list" where
  "index_items c = List.map_filter (btree_Get (items c)) (index c)"

text \<open>
  Modelled from the spec: \<^verbatim>\<open>index.Search\<close> is not in the source at hand. The spec has
  \<^verbatim>\<open>Search(cursor, minLat, minLon, maxLat, maxLon, minZ, maxZ, visit)\<close> call \<open>visit\<close> on
  the items of the box in a fixed order until it returns false, with the cursor a count of
  items skipped before the first visit, and return the count of items reached.
\<close>

definition index_Search ::
  "geo \<Rightarrow> Collection \<Rightarrow> nat \<Rightarrow> float64 \<Rightarrow> float64 \<Rightarrow> float64 \<Rightarrow> float64 \<Rightarrow> float64 \<Rightarrow> float64
   \<Rightarrow> 's iterator \<Rightarrow> 's \<Rightarrow> nat \<times> 's" where
  "index_Search G c cursor minLat minLon maxLat maxLon minZ maxZ visit s =
     scan_loop cursor visit
       (filter (\<lambda>item. g_hit G \<lparr>MinP = \<lparr>X = minLon, Y = minLat, Z = minZ\<rparr>,
                                 MaxP = \<lparr>X = maxLon, Y = maxLat, Z = maxZ\<rparr>\<rparr> (item_object item))
          (index_items c)) 0 s"

definition geoSearch :: "geo \<Rightarrow> Collection \<Rightarrow> nat \<Rightarrow> BBox \<Rightarrow> 's iterator \<Rightarrow> 's \<Rightarrow> nat \<times> 's" where
  "geoSearch G c cursor bbox iterator s =
     index_Search G c cursor (Y (MinP bbox)) (X (MinP bbox)) (Y (MaxP bbox)) (X (MaxP bbox))
       (Z (MinP bbox)) (Z (MaxP bbox))
       (\<lambda>iitm s. case iterator iitm s of (r, s') \<Rightarrow> if \<not> r then (False, s') else (True, s')) s"

text \<open>
  The two closures the queries hand to \<^verbatim>\<open>geoSearch\<close>. Without sparse the search goes on
  while the iterator returns true; in a sparse tile it stops when the iterator returns
  true.
\<close>

definition plain_cb :: "(object \<Rightarrow> bool) \<Rightarrow> 's iterator \<Rightarrow> 's iterator" where
  "plain_cb refine iterator item s =
     (if refine (item_object item) then iterator item s else (True, s))"

definition sparse_cb :: "(object \<Rightarrow> bool) \<Rightarrow> 's iterator \<Rightarrow> 's iterator" where
  "sparse_cb refine iterator item s =
     (if refine (item_object item)
      then (case iterator item s of (r, s') \<Rightarrow> if r then (False, s') else (True, s'))
      else (True, s))"

fun Nearby_tiles ::
  "geo \<Rightarrow> Collection \<Rightarrow> nat \<Rightarrow> Position \<Rightarrow> float64 \<Rightarrow> float64 \<Rightarrow> float64 \<Rightarrow> 's iterator
   \<Rightarrow> BBox list \<Rightarrow> 's \<Rightarrow> 's" where
  "Nearby_tiles G c cursor center meters minZ maxZ iterator [] s = s"
| "Nearby_tiles G c cursor center meters minZ maxZ iterator (bbox # rest) s =
     (let bbox' = bbox\<lparr>MinP := (MinP bbox)\<lparr>Z := minZ\<rparr>, MaxP := (MaxP bbox)\<lparr>Z := maxZ\<rparr>\<rparr>;
          s' = snd (geoSearch G c cursor bbox'
                      (sparse_cb (\<lambda>obj. g_Nearby G obj center meters) iterator) s)
      in Nearby_tiles G c cursor center meters minZ maxZ iterator rest s')"

definition Nearby ::
  "geo \<Rightarrow> Collection \<Rightarrow> nat \<Rightarrow> nat \<Rightarrow> float64 \<Rightarrow> float64 \<Rightarrow> float64 \<Rightarrow> float64 \<Rightarrow> float64
   \<Rightarrow> 's iterator
   \<Rightarrow> 's \<Rightarrow> nat \<times> 's" where
  "Nearby G c cursor sparse lat lon meters minZ maxZ iterator s =
     (let center = \<lparr>X = lon, Y = lat, Z = Fin 0\<rparr>;
          bbox = g_BBoxesFromCenter G lat lon meters;
          bboxes = g_Sparse G bbox sparse
      in if sparse > 0
         then (0, Nearby_tiles G c cursor center meters minZ maxZ iterator bboxes s)
         else (let bbox' = bbox\<lparr>MinP := (MinP bbox)\<lparr>Z := minZ\<rparr>, MaxP := (MaxP bbox)\<lparr>Z := maxZ\<rparr>\<rparr>
               in geoSearch G c cursor bbox'
                    (plain_cb (\<lambda>obj. g_Nearby G obj center meters) iterator) s))"

text \<open>The target \<^verbatim>\<open>obj\<close> of \<^verbatim>\<open>Within\<close> and \<^verbatim>\<open>Intersects\<close> is \<open>None\<close> when it is nil.\<close>

fun Within_tiles ::
  "geo \<Rightarrow> Collection \<Rightarrow> nat \<Rightarrow> object option \<Rightarrow> 's iterator \<Rightarrow> BBox list \<Rightarrow> 's \<Rightarrow> 's" where
  "Within_tiles G c cursor obj iterator [] s = s"
| "Within_tiles G c cursor obj iterator (bbox # rest) s =
     (let s1 = (case obj of
                  Some target \<Rightarrow>
                    snd (geoSearch G c cursor bbox (sparse_cb (\<lambda>ob. g_Within G ob target) iterator) s)
                | None \<Rightarrow> s);
          s2 = snd (geoSearch G c cursor bbox (sparse_cb (\<lambda>ob. g_WithinBBox G ob bbox) iterator) s1)
      in Within_tiles G c cursor obj iterator rest s2)"

definition query_bbox ::
  "object option \<Rightarrow> float64 \<Rightarrow> float64 \<Rightarrow> float64 \<Rightarrow> float64 \<Rightarrow> float64 \<Rightarrow> float64
   \<Rightarrow> panic + BBox" where
  "query_bbox obj minLat minLon maxLat maxLon minZ maxZ =
     (case obj of
        Some target \<Rightarrow> CalculatedBBox target
      | None \<Rightarrow> Inr \<lparr>MinP = \<lparr>X = minLon, Y = minLat, Z = minZ\<rparr>,
                      MaxP = \<lparr>X = maxLon, Y = maxLat, Z = maxZ\<rparr>\<rparr>)"

definition Within ::
  "geo \<Rightarrow> Collection \<Rightarrow> nat \<Rightarrow> nat \<Rightarrow> object option
   \<Rightarrow> float64 \<Rightarrow> float64 \<Rightarrow> float64 \<Rightarrow> float64 \<Rightarrow> float64 \<Rightarrow> float64
   \<Rightarrow> 's iterator \<Rightarrow> 's \<Rightarrow> panic + (nat \<times> 's)" where
  "Within G c cursor sparse obj minLat minLon maxLat maxLon minZ maxZ iterator s =
     (case query_bbox obj minLat minLon maxLat maxLon minZ maxZ of
        Inl e \<Rightarrow> Inl e
      | Inr bbox \<Rightarrow>
          (let bboxes = g_Sparse G bbox sparse
           in if sparse > 0
              then Inr (0, Within_tiles G c cursor obj iterator bboxes s)
              else (case obj of
                      Some target \<Rightarrow>
                        Inr (geoSearch G c cursor bbox (plain_cb (\<lambda>ob. g_Within G ob target) iterator) s)
                    | None \<Rightarrow>
                        Inr (geoSearch G c cursor bbox (plain_cb (\<lambda>ob. g_WithinBBox G ob bbox) iterator) s))))"

text \<open>
  The tiles of a sparse \<^verbatim>\<open>Intersects\<close>: two nested loops that step \<open>y\<close> and \<open>x\<close> by
  \<open>ypart\<close> and \<open>xpart\<close> while they are below the maximum and append a tile at every step.
  A loop that never ends (a step that is not positive, or so small that \<open>x + xpart\<close>
  rounds to \<open>x\<close>) is the result \<open>None\<close>.
\<close>

partial_function (option) row_tiles ::
  "float64 \<Rightarrow> float64 \<Rightarrow> float64 \<Rightarrow> float64 \<Rightarrow> float64 \<Rightarrow> float64 \<Rightarrow> float64
   \<Rightarrow> BBox list option" where
  "row_tiles x maxX xpart y ypart minZ maxZ =
     (if fless x maxX
      then Option.bind (row_tiles (fadd x xpart) maxX xpart y ypart minZ maxZ)
             (\<lambda>rest. Some (\<lparr>MinP = \<lparr>X = x, Y = y, Z = minZ\<rparr>,
                               MaxP = \<lparr>X = fadd x xpart, Y = fadd y ypart, Z = maxZ\<rparr>\<rparr> # rest))
      else Some [])"

partial_function (option) all_tiles ::
  "float64 \<Rightarrow> float64 \<Rightarrow> float64 \<Rightarrow> float64 \<Rightarrow> float64 \<Rightarrow> float64 \<Rightarrow> float64 \<Rightarrow> float64
   \<Rightarrow> BBox list option" where
  "all_tiles y maxY ypart minX maxX xpart minZ maxZ =
     (if fless y maxY
      then Option.bind (row_tiles minX maxX xpart y ypart minZ maxZ)
             (\<lambda>row. Option.bind (all_tiles (fadd y ypart) maxY ypart minX maxX xpart minZ maxZ)
                       (\<lambda>rest. Some (row @ rest)))
      else Some [])"

text \<open>
  \<^verbatim>\<open>split := 1 << sparse\<close> is an \<^verbatim>\<open>int\<close>, of 64 bits, shifted by a \<^verbatim>\<open>uint8\<close>: it is
  \<open>2 ^ sparse\<close> up to 62, the least \<^verbatim>\<open>int\<close> at 63 and zero from 64 on.
\<close>

definition shift_left_one :: "nat \<Rightarrow> int" where
  "shift_left_one n = (if n < 63 then 2 ^ n else if n = 63 then - (2 ^ 63) else 0)"

definition Intersects_bboxes :: "BBox \<Rightarrow> nat \<Rightarrow> float64 \<Rightarrow> float64 \<Rightarrow> BBox list option" where
  "Intersects_bboxes bbox sparse minZ maxZ =
     (let split = shift_left_one sparse;
          xpart = fdiv (fsub (X (MaxP bbox)) (X (MinP bbox))) (float64_of_int split);
          ypart = fdiv (fsub (Y (MaxP bbox)) (Y (MinP bbox))) (float64_of_int split)
      in all_tiles (Y (MinP bbox)) (Y (MaxP bbox)) ypart
           (X (MinP bbox)) (X (MaxP bbox)) xpart minZ maxZ)"

fun Intersects_tiles ::
  "geo \<Rightarrow> Collection \<Rightarrow> nat \<Rightarrow> object option \<Rightarrow> 's iterator \<Rightarrow> BBox list \<Rightarrow> 's \<Rightarrow> 's" where
  "Intersects_tiles G c cursor obj iterator [] s = s"
| "Intersects_tiles G c cursor obj iterator (bbox # rest) s =
     (let s1 = (case obj of
                  Some target \<Rightarrow>
                    snd (geoSearch G c cursor bbox (sparse_cb (\<lambda>ob. g_Intersects G ob target) iterator) s)
                | None \<Rightarrow> s);
          s2 = snd (geoSearch G c cursor bbox (sparse_cb (\<lambda>ob. g_IntersectsBBox G ob bbox) iterator) s1)
      in Intersects_tiles G c cursor obj iterator rest s2)"

text \<open>
  The code names the two last float parameters \<^verbatim>\<open>maxZ, minZ\<close> in this order. The result
  is \<open>None\<close> when the loops of the tiles do not end, \<open>Some (Inl e)\<close> for a panic.
\<close>

definition Intersects ::
  "geo \<Rightarrow> Collection \<Rightarrow> nat \<Rightarrow> nat \<Rightarrow> object option
   \<Rightarrow> float64 \<Rightarrow> float64 \<Rightarrow> float64 \<Rightarrow> float64 \<Rightarrow> float64 \<Rightarrow> float64
   \<Rightarrow> 's iterator \<Rightarrow> 's \<Rightarrow> (panic + (nat \<times> 's)) option" where
  "Intersects G c cursor sparse obj minLat minLon maxLat maxLon maxZ minZ iterator s =
     (case query_bbox obj minLat minLon maxLat maxLon minZ maxZ of
        Inl e \<Rightarrow> Some (Inl e)
      | Inr bbox \<Rightarrow>
          (if sparse > 0
           then (case Intersects_bboxes bbox sparse minZ maxZ of
                   None \<Rightarrow> None
                 | Some bboxes \<Rightarrow> Some (Inr (0, Intersects_tiles G c cursor obj iterator bboxes s)))
           else (case obj of
                   Some target \<Rightarrow>
                     Some (Inr (geoSearch G c cursor bbox
                                  (plain_cb (\<lambda>ob. g_Intersects G ob target) iterator) s))
                 | None \<Rightarrow>
                     Some (Inr (geoSearch G c cursor bbox
                                  (plain_cb (\<lambda>ob. g_IntersectsBBox G ob bbox) iterator) s)))))"

subsection \<open>The invariants and the reachable states\<close>

text \<open>
  The contribution of an item to \<open>points\<close> and \<open>weight\<close>: the values its object's
  \<^verbatim>\<open>PositionCount()\<close> and \<^verbatim>\<open>Weight()\<close> return (\<open>wf_item\<close>: they do return), the
  length of its id and 8 for each field.
\<close>

definition item_points :: "itemT \<Rightarrow> int" where
  "item_points it = projr (PositionCount (item_object it))"

definition item_weight :: "int \<Rightarrow> itemT \<Rightarrow> int" where
  "item_weight sz it =
     projr (Weight sz (item_object it)) + int (length (item_id it)) + 8 * int (length (item_fields it))"

definition wf_item :: "int \<Rightarrow> itemT \<Rightarrow> bool" where
  "wf_item sz it \<longleftrightarrow>
     \<not> isl (PositionCount (item_object it)) \<and> \<not> isl (Weight sz (item_object it))"

definition counters_ok :: "int \<Rightarrow> Collection \<Rightarrow> bool" where
  "counters_ok sz c \<longleftrightarrow>
     distinct (map item_id (items c)) \<and>
     list_all (wf_item sz) (items c) \<and>
     objects c = int (length (filter (\<lambda>it. IsGeometry (item_object it)) (items c))) \<and>
     nobjects c = int (length (filter (\<lambda>it. \<not> IsGeometry (item_object it)) (items c))) \<and>
     points c = sum_list (map item_points (items c)) \<and>
     weight c = sum_list (map (item_weight sz) (items c))"

text \<open>
  Routing: the spatial index points to the items whose object reports \<^verbatim>\<open>IsGeometry()\<close>,
  the value-ordered tree to the others.
\<close>

definition kinds :: "itemT list \<Rightarrow> (string \<times> bool) list" where
  "kinds t = map (\<lambda>it. (item_id it, IsGeometry (item_object it))) t"

definition routed :: "Collection \<Rightarrow> bool" where
  "routed c \<longleftrightarrow>
     set (index c) = {k. (k, True) \<in> set (kinds (items c))} \<and>
     set (values_tree c) = {k. (k, False) \<in> set (kinds (items c))}"

definition coll_inv :: "int \<Rightarrow> Collection \<Rightarrow> bool" where
  "coll_inv sz c \<longleftrightarrow> counters_ok sz c \<and> routed c"

text \<open>The registry after \<^verbatim>\<open>setField\<close> of a name.\<close>

definition assign_slot :: "(string \<times> nat) list \<Rightarrow> string \<Rightarrow> (string \<times> nat) list" where
  "assign_slot fm field = (case map_of fm field of Some i \<Rightarrow> fm | None \<Rightarrow> fm @ [(field, length fm)])"

text \<open>
  The reachable states: the empty collection, and every state a public mutation returns
  from a reachable state.
\<close>

inductive reachable :: "int \<Rightarrow> Collection \<Rightarrow> bool" for sz :: int where
  reach_New: "reachable sz New"
| reach_ReplaceOrInsert:
    "reachable sz c \<Longrightarrow> ReplaceOrInsert sz c k obj flds vals = Inr (c', res) \<Longrightarrow> reachable sz c'"
| reach_Remove:
    "reachable sz c \<Longrightarrow> Remove sz c k = Inr (c', res) \<Longrightarrow> reachable sz c'"
| reach_SetField:
    "reachable sz c \<Longrightarrow> SetField c k field v = (c', res) \<Longrightarrow> reachable sz c'"
| reach_UnmarshalJSON:
    "reachable sz c \<Longrightarrow> UnmarshalJSON json_Unmarshal ObjectAuto sz c b = Inr (c', err)
     \<Longrightarrow> reachable sz c'"

text \<open>
  The names of a sequence of field writes in the order of their first appearance, the
  registry that gives each of them its position, and the states with the sequence of names
  that the calls that led to them have written: \<^verbatim>\<open>ReplaceOrInsert\<close> writes its field
  names, \<^verbatim>\<open>SetField\<close> its name when the collection has an item of the id.
  (\<^verbatim>\<open>UnmarshalJSON\<close> is a sequence of \<^verbatim>\<open>ReplaceOrInsert\<close> calls.)
\<close>

fun first_occ :: "string list \<Rightarrow> string list" where
  "first_occ [] = []"
| "first_occ (n # ns) = n # filter (\<lambda>m. m \<noteq> n) (first_occ ns)"

inductive history :: "int \<Rightarrow> Collection \<Rightarrow> string list \<Rightarrow> bool" for sz :: int where
  hist_New: "history sz New []"
| hist_ReplaceOrInsert:
    "history sz c ns \<Longrightarrow> ReplaceOrInsert sz c k obj flds vals = Inr (c', res)
     \<Longrightarrow> history sz c' (ns @ (case flds of None \<Rightarrow> [] | Some fs \<Rightarrow> fs))"
| hist_Remove:
    "history sz c ns \<Longrightarrow> Remove sz c k = Inr (c', res) \<Longrightarrow> history sz c' ns"
| hist_SetField:
    "history sz c ns \<Longrightarrow> SetField c k field v = (c', res)
     \<Longrightarrow> history sz c' (ns @ (if k \<in> item_id ` set (items c) then [field] else []))"

definition registry_of :: "string list \<Rightarrow> (string \<times> nat) list" where
  "registry_of names = zip names [0..<length names]"

subsection \<open>Sample data\<close>

definition point_at :: "real \<Rightarrow> real \<Rightarrow> object" where
  "point_at x y =
     Other True 1 24 \<lparr>MinP = \<lparr>X = Fin x, Y = Fin y, Z = Fin 0\<rparr>,
                      MaxP = \<lparr>X = Fin x, Y = Fin y, Z = Fin 0\<rparr>\<rparr> ''point''"

definition col_a :: Collection where
  "col_a = \<lparr>items = [\<lparr>item_id = ''a'', item_object = point_at (1/2) (1/2), item_fields = []\<rparr>],
            values_tree = [], index = [''a''], fieldMap = [],
            weight = 25, points = 1, objects = 1, nobjects = 0\<rparr>"

definition col_a1 :: Collection where
  "col_a1 = col_a\<lparr>items := [\<lparr>item_id = ''a'', item_object = point_at (1/2) (1/2), item_fields = [10]\<rparr>],
                   fieldMap := [(''speed'', 0)], weight := 33\<rparr>"

definition col_a2 :: Collection where
  "col_a2 = col_a\<lparr>items := [\<lparr>item_id = ''a'', item_object = point_at (1/2) (1/2), item_fields = [10, 90]\<rparr>],
                   fieldMap := [(''speed'', 0), (''heading'', 1)], weight := 41\<rparr>"

definition rect_at :: "real \<Rightarrow> real \<Rightarrow> real \<Rightarrow> real \<Rightarrow> BBox" where
  "rect_at x0 y0 x1 y1 =
     \<lparr>MinP = \<lparr>X = Fin x0, Y = Fin y0, Z = Fin 0\<rparr>, MaxP = \<lparr>X = Fin x1, Y = Fin y1, Z = Fin 0\<rparr>\<rparr>"

definition unit_bbox :: BBox where
  "unit_bbox = rect_at 0 0 1 1"

definition feature_no_geometry :: object where
  "feature_no_geometry = Feature None (Some unit_bbox) []"

subsection \<open>The visits of a search\<close>

text \<open>
  The reading of a search that the properties below are stated against: the callback is
  applied to the items in order until it returns false; the result says whether it
  stopped, and the state. \<open>candidates\<close> are the items of a search box, in the order of the
  index, and \<open>tile_visits\<close> is the search of a sparse tile: the first \<open>cursor\<close>
  candidates are skipped and the others visited until the callback of the tile stops.
\<close>

fun run_visits :: "'s iterator \<Rightarrow> itemT list \<Rightarrow> 's \<Rightarrow> bool \<times> 's" where
  "run_visits cb [] s = (False, s)"
| "run_visits cb (item # rest) s =
     (case cb item s of (True, s') \<Rightarrow> run_visits cb rest s' | (False, s') \<Rightarrow> (True, s'))"

definition candidates :: "geo \<Rightarrow> Collection \<Rightarrow> BBox \<Rightarrow> itemT list" where
  "candidates G c bbox = filter (\<lambda>item. g_hit G bbox (item_object item)) (index_items c)"

definition with_Z :: "BBox \<Rightarrow> float64 \<Rightarrow> float64 \<Rightarrow> BBox" where
  "with_Z bbox minZ maxZ = bbox\<lparr>MinP := (MinP bbox)\<lparr>Z := minZ\<rparr>, MaxP := (MaxP bbox)\<lparr>Z := maxZ\<rparr>\<rparr>"

definition tile_visits ::
  "geo \<Rightarrow> Collection \<Rightarrow> nat \<Rightarrow> BBox \<Rightarrow> (object \<Rightarrow> bool) \<Rightarrow> 's iterator \<Rightarrow> 's \<Rightarrow> 's" where
  "tile_visits G c cursor tile refine iterator s =
     snd (run_visits (sparse_cb refine iterator) (drop cursor (candidates G c tile)) s)"

subsection \<open>Sample geometry layer, collections and documents\<close>

text \<open>
  A sample geometry layer on bounding boxes: the R-tree selects the items whose box
  overlaps the search box, \<^verbatim>\<open>IntersectsBBox\<close> and \<^verbatim>\<open>WithinBBox\<close> compare boxes, and no
  stored item is within or intersects the target \<open>polygon_target\<close> (they lie in its
  bounding box, outside the polygon). \<open>record_go\<close> and \<open>record_stop\<close> are callbacks that
  record the ids they are given and return false and true.
\<close>

definition rect_overlap :: "BBox \<Rightarrow> BBox \<Rightarrow> bool" where
  "rect_overlap a b \<longleftrightarrow>
     fle (X (MinP a)) (X (MaxP b)) \<and> fle (X (MinP b)) (X (MaxP a)) \<and>
     fle (Y (MinP a)) (Y (MaxP b)) \<and> fle (Y (MinP b)) (Y (MaxP a)) \<and>
     fle (Z (MinP a)) (Z (MaxP b)) \<and> fle (Z (MinP b)) (Z (MaxP a))"

definition rect_inside :: "BBox \<Rightarrow> BBox \<Rightarrow> bool" where
  "rect_inside a b \<longleftrightarrow>
     fle (X (MinP b)) (X (MinP a)) \<and> fle (X (MaxP a)) (X (MaxP b)) \<and>
     fle (Y (MinP b)) (Y (MinP a)) \<and> fle (Y (MaxP a)) (Y (MaxP b))"

definition obj_overlaps :: "object \<Rightarrow> BBox \<Rightarrow> bool" where
  "obj_overlaps obj box = (case CalculatedBBox obj of Inr b \<Rightarrow> rect_overlap b box | Inl e \<Rightarrow> False)"

definition geo_sample :: geo where
  "geo_sample =
     \<lparr>g_Within = (\<lambda>ob target. False),
      g_Intersects = (\<lambda>ob target. False),
      g_WithinBBox = (\<lambda>ob box. case CalculatedBBox ob of Inr b \<Rightarrow> rect_inside b box | Inl e \<Rightarrow> False),
      g_IntersectsBBox = obj_overlaps,
      g_Nearby = (\<lambda>ob center meters. True),
      g_Sparse = (\<lambda>box n. [box]),
      g_BBoxesFromCenter = (\<lambda>lat lon meters.
         \<lparr>MinP = \<lparr>X = fsub lon meters, Y = fsub lat meters, Z = Fin 0\<rparr>,
          MaxP = \<lparr>X = fadd lon meters, Y = fadd lat meters, Z = Fin 0\<rparr>\<rparr>),
      g_hit = (\<lambda>box ob. obj_overlaps ob box)\<rparr>"

definition col_ab :: Collection where
  "col_ab = \<lparr>items = [\<lparr>item_id = ''a'', item_object = point_at (1/2) (1/2), item_fields = []\<rparr>,
                      \<lparr>item_id = ''b'', item_object = point_at (3/2) (1/2), item_fields = []\<rparr>],
             values_tree = [], index = [''a'', ''b''], fieldMap = [],
             weight = 50, points = 2, objects = 2, nobjects = 0\<rparr>"

definition polygon_target :: object where
  "polygon_target =
     Other True 4 96 (rect_at 0 0 2 2) ''polygon''"

definition record_go :: "string list iterator" where
  "record_go item s = (False, s @ [item_id item])"


definition tiles4 :: "BBox list" where
  "tiles4 = [rect_at 0 0 1 1, rect_at 1 0 2 1, rect_at 0 1 1 2, rect_at 1 1 2 2]"

text \<open>
  The doubles nearest to 0.1, 0.6 and 1.3, and the doubles that the sums \<open>0.1 + 0.6\<close>,
  \<open>0.7 + 0.6\<close> and \<open>1.2999999999999998 + 0.6\<close> round to. The second sum lies below 1.3.
\<close>

definition d01 :: real where "d01 = 3602879701896397 / 2 ^ 55"
definition d06 :: real where "d06 = 5404319552844595 / 2 ^ 53"
definition d07 :: real where "d07 = 3152519739159347 / 2 ^ 52"
definition d13_below :: real where "d13_below = 1463669878895411 / 2 ^ 50"
definition d13 :: real where "d13 = 5854679515581645 / 2 ^ 52"
definition d19 :: real where "d19 = 4278419646001971 / 2 ^ 51"



text \<open>
  Sample values of the library functions: \<open>json_Unmarshal_sample\<close> is \<^verbatim>\<open>json.Unmarshal\<close> on
  the document \<open>doc_no_fields\<close>, which has one row and no \<^verbatim>\<open>fields\<close> member, and on the
  empty document, which it rejects; \<open>ObjectAuto_sample\<close> parses the text of the sample point.
\<close>

definition doc_no_fields :: string where
  \<open>doc_no_fields = ''{"rows":[{"id":"a","obj":"cG9pbnQ=","values":[1,2]}]}''\<close>

definition json_Unmarshal_sample :: "string \<Rightarrow> Portable \<Rightarrow> error + Portable" where
  "json_Unmarshal_sample bytes p =
     (if bytes = doc_no_fields
      then Inr (p\<lparr>Rows := [\<lparr>Row_Id = ''a'', Row_Obj = ''point'', Row_Values = [1, 2]\<rparr>]\<rparr>)
      else Inl (DecodeError ''unexpected end of JSON input''))"

definition ObjectAuto_sample :: "string \<Rightarrow> error + object" where
  "ObjectAuto_sample bytes =
     (if bytes = ''point'' then Inr (point_at (1/2) (1/2)) else Inl (DecodeError ''invalid object''))"

definition objJSON_sample :: "object \<Rightarrow> string" where
  "objJSON_sample obj = (case obj of Other ig pc w bb s \<Rightarrow> s | Feature g b p \<Rightarrow> [])"

definition col_a1b :: Collection where
  "col_a1b = \<lparr>items = [\<lparr>item_id = ''a'', item_object = point_at (1/2) (1/2), item_fields = [10]\<rparr>,
                       \<lparr>item_id = ''b'', item_object = point_at (1/2) (1/2), item_fields = []\<rparr>],
              values_tree = [], index = [''a'', ''b''], fieldMap = [(''speed'', 0)],
              weight = 58, points = 2, objects = 2, nobjects = 0\<rparr>"


definition col_12 :: Collection where
  "col_12 = col_a\<lparr>items := [\<lparr>item_id = ''a'', item_object = point_at (1/2) (1/2), item_fields = [1, 2]\<rparr>],
                   weight := 41\<rparr>"

section \<open>Properties\<close>

subsection \<open>Helper lemmas\<close>

lemma extend_fields_eq: "extend_fields idx fs = fs @ replicate (Suc idx - length fs) 0"
proof (induction idx fs rule: extend_fields.induct)
  case (1 idx fs)
  show ?case
  proof (cases "idx \<ge> length fs")
    case True
    then have "extend_fields idx fs = extend_fields idx (fs @ [0])" by (subst extend_fields.simps) simp
    also have "\<dots> = (fs @ [0]) @ replicate (Suc idx - length (fs @ [0])) 0"
      using 1 True by simp
    also have "\<dots> = fs @ replicate (Suc idx - length fs) 0"
      using True by (simp add: Suc_diff_le replicate_app_Cons_same)
    finally show ?thesis .
  next
    case False
    then show ?thesis by (subst extend_fields.simps) simp
  qed
qed

lemma btree_Get_Some: "btree_Get t k = Some item \<Longrightarrow> item_id item = k \<and> item \<in> set t"
  unfolding btree_Get_def by (auto simp: find_Some_iff)

lemma btree_Get_None: "btree_Get t k = None \<longleftrightarrow> k \<notin> item_id ` set t"
  unfolding btree_Get_def by (auto simp: find_None_iff)

lemma find_put:
  "find (\<lambda>it. item_id it = k) t = Some item \<Longrightarrow> item_id item' = k \<Longrightarrow>
   find (\<lambda>it. item_id it = k) (map (\<lambda>it. if item_id it = item_id item' then item' else it) t) = Some item'"
  by (induction t) (auto split: if_splits)

lemma filter_absent: "k \<notin> item_id ` set t \<Longrightarrow> filter (\<lambda>it. item_id it \<noteq> k) t = t"
  by (induction t) auto

lemma map_absent:
  "k \<notin> item_id ` set t \<Longrightarrow> map (\<lambda>it. if item_id it = k then n else it) t = t"
  by (induction t) auto

lemma sum_list_delete:
  fixes f :: "itemT \<Rightarrow> int"
  shows "distinct (map item_id t) \<Longrightarrow> item \<in> set t \<Longrightarrow>
   sum_list (map f (filter (\<lambda>it. item_id it \<noteq> item_id item) t)) = sum_list (map f t) - f item"
proof (induction t)
  case Nil then show ?case by simp
next
  case (Cons a t)
  show ?case
  proof (cases "a = item")
    case True
    with Cons.prems have "filter (\<lambda>it. item_id it \<noteq> item_id item) t = t"
      by (simp add: filter_absent)
    with True show ?thesis by simp
  next
    case False
    with Cons.prems have "item \<in> set t" "item_id a \<noteq> item_id item" by auto
    with Cons show ?thesis by simp
  qed
qed

lemma length_filter_delete:
  "distinct (map item_id t) \<Longrightarrow> item \<in> set t \<Longrightarrow>
   int (length (filter P (filter (\<lambda>it. item_id it \<noteq> item_id item) t)))
     = int (length (filter P t)) - (if P item then 1 else 0)"
proof (induction t)
  case Nil then show ?case by simp
next
  case (Cons a t)
  show ?case
  proof (cases "a = item")
    case True
    with Cons.prems have "filter (\<lambda>it. item_id it \<noteq> item_id item) t = t"
      by (simp add: filter_absent)
    with True show ?thesis by simp
  next
    case False
    with Cons.prems have "item \<in> set t" "item_id a \<noteq> item_id item" by auto
    with Cons show ?thesis by (auto split: if_splits)
  qed
qed

lemma sum_list_insort:
  fixes f :: "itemT \<Rightarrow> int"
  shows "sum_list (map f (insort_key item_id x t)) = f x + sum_list (map f t)"
  by (induction t) auto

lemma filter_insort_len:
  "int (length (filter P (insort_key item_id x t))) = (if P x then 1 else 0) + int (length (filter P t))"
  by (induction t) auto

lemma sum_list_put:
  fixes f :: "itemT \<Rightarrow> int"
  shows "distinct (map item_id t) \<Longrightarrow> old \<in> set t \<Longrightarrow> item_id new = item_id old \<Longrightarrow>
   sum_list (map f (map (\<lambda>it. if item_id it = item_id new then new else it) t))
     = sum_list (map f t) - f old + f new"
proof (induction t)
  case Nil then show ?case by simp
next
  case (Cons a t)
  show ?case
  proof (cases "a = old")
    case True
    with Cons.prems have "map (\<lambda>it. if item_id it = item_id new then new else it) t = t"
      by (simp add: map_absent)
    with True Cons.prems show ?thesis by simp
  next
    case False
    with Cons.prems have "old \<in> set t" "item_id a \<noteq> item_id new" by auto
    with Cons show ?thesis by simp
  qed
qed

lemma wf_itemD:
  "wf_item sz it \<Longrightarrow> \<exists>pc w. PositionCount (item_object it) = Inr pc \<and> Weight sz (item_object it) = Inr w"
  unfolding wf_item_def by (cases "PositionCount (item_object it)"; cases "Weight sz (item_object it)") auto

lemma PositionCount_CalculatedBBox:
  "PositionCount obj = Inr pc \<Longrightarrow> \<exists>bb. CalculatedBBox obj = Inr bb"
proof (induction obj arbitrary: pc rule: CalculatedBBox.induct)
  case (1 g b p)
  show ?case
  proof (cases b)
    case (Some bb)
    then show ?thesis by simp
  next
    case None
    from "1.prems" obtain geo where g: "g = Some geo" by (cases g) auto
    from "1.prems" g obtain n where "PositionCount geo = Inr n"
      by (cases "PositionCount geo") auto
    from "1.IH" [OF None g this] show ?thesis using None g by simp
  qed
next
  case (2 ig pc' w bb s)
  then show ?case by simp
qed

lemma remove_found:
  assumes "btree_Get (items c) k = Some item"
    and "Weight sz (item_object item) = Inr w"
    and "PositionCount (item_object item) = Inr pc"
  shows "remove sz c k =
     Inr (c\<lparr>items := btree_Delete (items c) k,
            index := (if IsGeometry (item_object item) then removeAll (item_id item) (index c) else index c),
            values_tree := (if IsGeometry (item_object item) then values_tree c
                            else removeAll (item_id item) (values_tree c)),
            objects := objects c - (if IsGeometry (item_object item) then 1 else 0),
            nobjects := nobjects c - (if IsGeometry (item_object item) then 0 else 1),
            weight := weight c - int (length (item_fields item)) * 8 - (w + int (length (item_id item))),
            points := points c - pc\<rparr>, Some item)"
proof -
  from PositionCount_CalculatedBBox [OF assms(3)] obtain bb
    where "CalculatedBBox (item_object item) = Inr bb" by blast
  with assms show ?thesis by (simp add: remove_def Let_def)
qed

lemma insert_item_Inr:
  assumes "insert_item sz c k obj = Inr (c', it)"
  shows "\<exists>w pc. Weight sz obj = Inr w \<and> PositionCount obj = Inr pc \<and>
     it = \<lparr>item_id = k, item_object = obj, item_fields = []\<rparr> \<and>
     c' = c\<lparr>items := btree_ReplaceOrInsert (items c) it,
            index := (if IsGeometry obj then index c @ [k] else index c),
            values_tree := (if IsGeometry obj then values_tree c else removeAll k (values_tree c) @ [k]),
            objects := objects c + (if IsGeometry obj then 1 else 0),
            nobjects := nobjects c + (if IsGeometry obj then 0 else 1),
            weight := weight c + (w + int (length k)),
            points := points c + pc\<rparr>"
  using assms by (auto simp: insert_item_def Let_def split: if_splits sum.splits)

lemma same_id_same_item:
  "distinct (map item_id t) \<Longrightarrow> a \<in> set t \<Longrightarrow> b \<in> set t \<Longrightarrow> item_id a = item_id b \<Longrightarrow> a = b"
  by (auto simp: distinct_map inj_on_def)

lemma kinds_delete:
  assumes "distinct (map item_id t)" and "item \<in> set t"
  shows "set (kinds (filter (\<lambda>it. item_id it \<noteq> item_id item) t))
         = set (kinds t) - {(item_id item, IsGeometry (item_object item))}"
  using same_id_same_item [OF assms(1) _ assms(2)] by (auto simp: kinds_def)

lemma kinds_insort:
  "set (kinds (insort_key item_id x t)) = insert (item_id x, IsGeometry (item_object x)) (set (kinds t))"
  by (simp add: kinds_def set_insort_key)

lemma kinds_put:
  assumes "distinct (map item_id t)" and "old \<in> set t" and "item_id new = item_id old"
    and "item_object new = item_object old"
  shows "kinds (map (\<lambda>it. if item_id it = item_id new then new else it) t) = kinds t"
  unfolding kinds_def map_map
proof (rule map_cong [OF refl])
  fix it assume "it \<in> set t"
  with same_id_same_item [OF assms(1) this assms(2)] assms(3,4)
  show "((\<lambda>it. (item_id it, IsGeometry (item_object it))) \<circ>
          (\<lambda>it. if item_id it = item_id new then new else it)) it
        = (item_id it, IsGeometry (item_object it))"
    by auto
qed

lemma remove_inv:
  assumes inv: "coll_inv sz c" and r: "remove sz c k = Inr (c', r)"
  shows "coll_inv sz c' \<and> k \<notin> item_id ` set (items c') \<and> fieldMap c' = fieldMap c
         \<and> (case r of None \<Rightarrow> c' = c | Some it \<Rightarrow> btree_Get (items c) k = Some it)"
proof (cases "btree_Get (items c) k")
  case None
  with r have "c' = c" "r = None" by (simp_all add: remove_def)
  with None inv show ?thesis by (simp add: btree_Get_None)
next
  case (Some item)
  from inv have ok: "counters_ok sz c" and rt: "routed c" by (simp_all add: coll_inv_def)
  from Some have idk: "item_id item = k" and mem: "item \<in> set (items c)"
    by (simp_all add: btree_Get_Some)
  from ok have dist: "distinct (map item_id (items c))" and wfs: "list_all (wf_item sz) (items c)"
    by (simp_all add: counters_ok_def)
  from wfs mem have "wf_item sz item" by (simp add: list_all_iff)
  then obtain pc w where pc: "PositionCount (item_object item) = Inr pc"
    and w: "Weight sz (item_object item) = Inr w" using wf_itemD by blast
  have ipts: "item_points item = pc" by (simp add: item_points_def pc)
  have iw: "item_weight sz item = w + int (length (item_id item)) + 8 * int (length (item_fields item))"
    by (simp add: item_weight_def w)
  note del = sum_list_delete [OF dist mem] length_filter_delete [OF dist mem]
  note rf = remove_found [OF Some w pc]
  have rr: "r = Some item" using r rf by simp
  have items': "items c' = filter (\<lambda>it. item_id it \<noteq> item_id item) (items c)"
    using r rf idk by (auto simp: btree_Delete_def)
  have fm: "fieldMap c' = fieldMap c"
    using r rf by auto
  have cnt: "objects c' = objects c - (if IsGeometry (item_object item) then 1 else 0)"
      "nobjects c' = nobjects c - (if \<not> IsGeometry (item_object item) then 1 else 0)"
      "points c' = points c - pc"
      "weight c' = weight c - int (length (item_fields item)) * 8 - (w + int (length (item_id item)))"
    using r rf by auto
  have "counters_ok sz c'"
    unfolding counters_ok_def items' cnt del
    using ok ipts iw by (auto simp: counters_ok_def list_all_iff distinct_map_filter)
  moreover have "routed c'"
  proof -
    have ix: "index c' = (if IsGeometry (item_object item) then removeAll (item_id item) (index c)
                          else index c)"
      and vt: "values_tree c' = (if IsGeometry (item_object item) then values_tree c
                                 else removeAll (item_id item) (values_tree c))"
      using r rf by auto
    show ?thesis
      unfolding routed_def items' kinds_delete [OF dist mem] ix vt
      using rt by (auto simp: routed_def)
  qed
  moreover have "k \<notin> item_id ` set (items c')" unfolding items' using idk by auto
  ultimately show ?thesis using fm rr Some by (simp add: coll_inv_def)
qed

lemma find_insort_new:
  "k \<notin> item_id ` set t \<Longrightarrow> item_id x = k \<Longrightarrow> find (\<lambda>it. item_id it = k) (insort_key item_id x t) = Some x"
  by (induction t) auto

lemma distinct_ids_insort:
  "distinct (map item_id (insort_key item_id x t)) \<longleftrightarrow>
     item_id x \<notin> item_id ` set t \<and> distinct (map item_id t)"
  by (induction t) (auto simp: set_insort_key)

lemma insert_inv:
  assumes inv: "coll_inv sz c" and fresh: "k \<notin> item_id ` set (items c)"
    and r: "insert_item sz c k obj = Inr (c', it)"
  shows "coll_inv sz c' \<and> btree_Get (items c') k = Some it
         \<and> it = \<lparr>item_id = k, item_object = obj, item_fields = []\<rparr> \<and> fieldMap c' = fieldMap c"
proof -
  let ?it = "\<lparr>item_id = k, item_object = obj, item_fields = []\<rparr>"
  from inv have ok: "counters_ok sz c" and rt: "routed c" by (simp_all add: coll_inv_def)
  from insert_item_Inr [OF r] obtain w pc where w: "Weight sz obj = Inr w"
    and pc: "PositionCount obj = Inr pc" and it: "it = ?it"
    and c': "c' = c\<lparr>items := btree_ReplaceOrInsert (items c) it,
            index := (if IsGeometry obj then index c @ [k] else index c),
            values_tree := (if IsGeometry obj then values_tree c else removeAll k (values_tree c) @ [k]),
            objects := objects c + (if IsGeometry obj then 1 else 0),
            nobjects := nobjects c + (if IsGeometry obj then 0 else 1),
            weight := weight c + (w + int (length k)),
            points := points c + pc\<rparr>" by blast
  have del: "btree_Delete (items c) k = items c"
    using fresh by (simp add: btree_Delete_def filter_absent)
  have items': "items c' = insort_key item_id ?it (items c)"
    using c' it del by (simp add: btree_ReplaceOrInsert_def)
  have fm: "fieldMap c' = fieldMap c" using c' by simp
  have cnt: "objects c' = objects c + (if IsGeometry obj then 1 else 0)"
      "nobjects c' = nobjects c + (if \<not> IsGeometry obj then 1 else 0)"
      "points c' = points c + pc"
      "weight c' = weight c + (w + int (length k))"
    using c' by simp_all
  have wf: "wf_item sz ?it" by (simp add: wf_item_def w pc)
  have "counters_ok sz c'"
    unfolding counters_ok_def items' cnt sum_list_insort filter_insort_len
    using ok fresh wf
    by (auto simp: counters_ok_def list_all_iff distinct_ids_insort set_insort_key item_points_def
        item_weight_def w pc)
  moreover have "routed c'"
  proof -
    have ix: "index c' = (if IsGeometry obj then index c @ [k] else index c)"
      and vt: "values_tree c' = (if IsGeometry obj then values_tree c
                                 else removeAll k (values_tree c) @ [k])"
      using c' by simp_all
    show ?thesis
      unfolding routed_def items' kinds_insort ix vt
      using rt by (auto simp: routed_def)
  qed
  moreover have "btree_Get (items c') k = Some it"
    unfolding items' btree_Get_def it using fresh by (simp add: find_insort_new)
  ultimately show ?thesis using it fm by (simp add: coll_inv_def)
qed

lemma put_inv:
  assumes inv: "coll_inv sz c"
    and g: "btree_Get (items c) (item_id new) = Some old"
    and obj: "item_object new = item_object old"
    and same: "items c2 = items c" "objects c2 = objects c" "nobjects c2 = nobjects c"
      "points c2 = points c" "index c2 = index c" "values_tree c2 = values_tree c"
    and w: "weight c2 = weight c - 8 * int (length (item_fields old)) + 8 * int (length (item_fields new))"
  shows "coll_inv sz (put_item c2 new) \<and> btree_Get (items (put_item c2 new)) (item_id new) = Some new"
proof -
  let ?upd = "\<lambda>it. if item_id it = item_id new then new else it"
  from inv have ok: "counters_ok sz c" and rt: "routed c" by (simp_all add: coll_inv_def)
  from g have ido: "item_id old = item_id new" and mem: "old \<in> set (items c)"
    by (simp_all add: btree_Get_Some)
  from ok have dist: "distinct (map item_id (items c))" and wfs: "list_all (wf_item sz) (items c)"
    by (simp_all add: counters_ok_def)
  have ids: "(\<lambda>x. item_id (if item_id x = item_id new then new else x)) = item_id"
    by (rule ext) simp
  have geo: "\<And>P. filter (\<lambda>it. P (item_object it)) (map ?upd (items c)) = map ?upd (filter (\<lambda>it. P (item_object it)) (items c))"
  proof -
    fix P
    have "\<And>t. set t \<subseteq> set (items c) \<Longrightarrow> filter (\<lambda>it. P (item_object it)) (map ?upd t) = map ?upd (filter (\<lambda>it. P (item_object it)) t)"
    proof -
      fix t show "set t \<subseteq> set (items c) \<Longrightarrow> filter (\<lambda>it. P (item_object it)) (map ?upd t) = map ?upd (filter (\<lambda>it. P (item_object it)) t)"
      proof (induction t)
        case Nil then show ?case by simp
      next
        case (Cons a t)
        have "item_id a = item_id new \<Longrightarrow> a = old"
          using Cons.prems dist mem ido by (auto simp: distinct_map inj_on_def)
        with Cons obj show ?case by auto
      qed
    qed
    then show "filter (\<lambda>it. P (item_object it)) (map ?upd (items c)) = map ?upd (filter (\<lambda>it. P (item_object it)) (items c))" by simp
  qed
  have wold: "wf_item sz old" using wfs mem by (simp add: list_all_iff)
  then have wnew: "wf_item sz new" using obj by (simp add: wf_item_def)
  have s1: "sum_list (map item_points (map ?upd (items c))) = sum_list (map item_points (items c)) - item_points old + item_points new"
    by (rule sum_list_put [OF dist mem ido [symmetric]])
  have s2: "sum_list (map (item_weight sz) (map ?upd (items c))) = sum_list (map (item_weight sz) (items c)) - item_weight sz old + item_weight sz new"
    by (rule sum_list_put [OF dist mem ido [symmetric]])
  have pe: "item_points new = item_points old" by (simp add: item_points_def obj)
  have we: "item_weight sz new - item_weight sz old = 8 * int (length (item_fields new)) - 8 * int (length (item_fields old))"
    by (simp add: item_weight_def obj ido)
  have it: "items (put_item c2 new) = map ?upd (items c)" by (simp add: put_item_def same)
  have "counters_ok sz (put_item c2 new)"
    unfolding counters_ok_def it geo [of "\<lambda>x. IsGeometry x"] geo [of "\<lambda>x. \<not> IsGeometry x"] s1 s2
    using ok wnew pe we w same
    by (auto simp: counters_ok_def list_all_iff put_item_def comp_def ids)
  moreover have "routed (put_item c2 new)"
    unfolding routed_def it kinds_put [OF dist mem ido [symmetric] obj]
    using rt same by (simp add: routed_def put_item_def)
  moreover have "btree_Get (items (put_item c2 new)) (item_id new) = Some new"
    unfolding it btree_Get_def using g by (simp add: btree_Get_def find_put)
  ultimately show ?thesis by (simp add: coll_inv_def)
qed

lemma setField_unfold:
  "setField c item field v =
     (let idx = slot_of (fieldMap c) field;
          fs = extend_fields idx (item_fields item);
          item' = item\<lparr>item_fields := fs[idx := v]\<rparr>
      in (put_item (c\<lparr>fieldMap := assign_slot (fieldMap c) field,
                       weight := weight c - int (length (item_fields item)) * 8 + int (length fs) * 8\<rparr>) item',
          item', fs ! idx \<noteq> v))"
  by (cases "map_of (fieldMap c) field") (simp_all add: setField_def slot_of_def assign_slot_def Let_def)

lemma setField_inv:
  assumes ok: "coll_inv sz c" and g: "btree_Get (items c) (item_id item) = Some item"
    and r: "setField c item field v = (c', item', u)"
  shows "coll_inv sz c' \<and> btree_Get (items c') (item_id item') = Some item'
         \<and> item_id item' = item_id item \<and> item_object item' = item_object item
         \<and> fieldMap c' = assign_slot (fieldMap c) field"
proof -
  let ?idx = "slot_of (fieldMap c) field"
  let ?fs = "extend_fields ?idx (item_fields item)"
  let ?c2 = "c\<lparr>fieldMap := assign_slot (fieldMap c) field,
               weight := weight c - int (length (item_fields item)) * 8 + int (length ?fs) * 8\<rparr>"
  from r have i': "item' = item\<lparr>item_fields := ?fs[?idx := v]\<rparr>" and c': "c' = put_item ?c2 item'"
    by (auto simp: setField_unfold Let_def)
  have g': "btree_Get (items c) (item_id item') = Some item" using g i' by simp
  have "coll_inv sz (put_item ?c2 item') \<and> btree_Get (items (put_item ?c2 item')) (item_id item') = Some item'"
    by (rule put_inv [OF ok g']) (simp_all add: i')
  then show ?thesis using c' i' by (simp add: put_item_def)
qed

lemma setFields_inv:
  "coll_inv sz c \<Longrightarrow> btree_Get (items c) (item_id item) = Some item \<Longrightarrow>
   setFields c item fs vs i = Inr (c', item') \<Longrightarrow>
   coll_inv sz c' \<and> btree_Get (items c') (item_id item') = Some item' \<and> item_id item' = item_id item
     \<and> item_object item' = item_object item
     \<and> fieldMap c' = fold (\<lambda>f fm. assign_slot fm f) fs (fieldMap c)"
proof (induction fs arbitrary: c item i)
  case Nil
  then show ?case by simp
next
  case (Cons f fs)
  from Cons.prems(3) have lt: "i < length vs" by (simp split: if_splits)
  obtain c1 item1 u where sf: "setField c item f (vs ! i) = (c1, item1, u)"
    by (cases "setField c item f (vs ! i)") auto
  with Cons.prems(3) lt have rest: "setFields c1 item1 fs vs (Suc i) = Inr (c', item')" by simp
  from setField_inv [OF Cons.prems(1,2) sf]
  have 1: "coll_inv sz c1" "btree_Get (items c1) (item_id item1) = Some item1"
     "item_id item1 = item_id item" "fieldMap c1 = assign_slot (fieldMap c) f"
     "item_object item1 = item_object item" by blast+
  from Cons.IH [OF 1(1,2) rest] 1(3,4,5) show ?case by auto
qed

lemma ReplaceOrInsert_inv:
  assumes ok: "coll_inv sz c" and r: "ReplaceOrInsert sz c k obj flds vals = Inr (c', res)"
  shows "coll_inv sz c' \<and> (\<exists>it. btree_Get (items c') k = Some it \<and> item_object it = obj)"
proof -
  from r obtain c1 old where rm: "remove sz c k = Inr (c1, old)"
    by (cases "remove sz c k") (auto simp: ReplaceOrInsert_def)
  from r rm obtain c2 nitem where ins: "insert_item sz c1 k obj = Inr (c2, nitem)"
    by (cases "insert_item sz c1 k obj") (auto simp: ReplaceOrInsert_def)
  from remove_inv [OF ok rm] have ok1: "coll_inv sz c1" and fresh: "k \<notin> item_id ` set (items c1)"
    and oldg: "case old of None \<Rightarrow> c1 = c | Some it \<Rightarrow> btree_Get (items c) k = Some it" by simp_all
  from insert_inv [OF ok1 fresh ins] have ok2: "coll_inv sz c2"
    and g2: "btree_Get (items c2) k = Some nitem"
    and nit: "nitem = \<lparr>item_id = k, item_object = obj, item_fields = []\<rparr>" by simp_all
  define n1 where "n1 = (case old of Some oldItem \<Rightarrow> nitem\<lparr>item_fields := item_fields oldItem\<rparr> | None \<Rightarrow> nitem)"
  define c3 where "c3 = (case old of Some oldItem \<Rightarrow>
       put_item (c2\<lparr>weight := weight c2 + int (length (item_fields n1)) * 8\<rparr>) n1 | None \<Rightarrow> c2)"
  have id1: "item_id n1 = k" and ob1: "item_object n1 = obj"
    by (simp_all add: n1_def nit split: option.splits)
  have 3: "coll_inv sz c3 \<and> btree_Get (items c3) (item_id n1) = Some n1"
  proof (cases old)
    case None
    then show ?thesis using ok2 g2 by (simp add: c3_def n1_def nit)
  next
    case (Some oldItem)
    have g2': "btree_Get (items c2) (item_id n1) = Some nitem" using g2 id1 by simp
    have "coll_inv sz (put_item (c2\<lparr>weight := weight c2 + int (length (item_fields n1)) * 8\<rparr>) n1)
        \<and> btree_Get (items (put_item (c2\<lparr>weight := weight c2 + int (length (item_fields n1)) * 8\<rparr>) n1)) (item_id n1) = Some n1"
      by (rule put_inv [OF ok2 g2']) (simp_all add: ob1 nit)
    then show ?thesis using Some by (simp add: c3_def)
  qed
  show ?thesis
  proof (cases "flds = None \<and> length vals > 0")
    case True
    let ?n2 = "n1\<lparr>item_fields := vals\<rparr>"
    let ?c5 = "c3\<lparr>weight := weight c3 - int (length (item_fields n1)) * 8 + int (length vals) * 8\<rparr>"
    have c': "c' = put_item ?c5 ?n2"
      using r rm ins True by (auto simp: ReplaceOrInsert_def Let_def c3_def n1_def split: option.splits)
    have g3: "btree_Get (items c3) (item_id ?n2) = Some n1" using 3 by simp
    have "coll_inv sz (put_item ?c5 ?n2) \<and> btree_Get (items (put_item ?c5 ?n2)) (item_id ?n2) = Some ?n2"
      by (rule put_inv [OF _ g3]) (simp_all add: 3)
    then show ?thesis using c' id1 ob1 by simp
  next
    case False
    let ?fs = "case flds of None \<Rightarrow> [] | Some fs \<Rightarrow> fs"
    from r rm ins False obtain n2 where sf: "setFields c3 n1 ?fs vals 0 = Inr (c', n2)"
      by (cases "setFields c3 n1 ?fs vals 0")
        (auto simp: ReplaceOrInsert_def Let_def c3_def n1_def split: option.splits if_splits)
    from 3 have a: "coll_inv sz c3" and b: "btree_Get (items c3) (item_id n1) = Some n1" by simp_all
    from setFields_inv [OF a b sf] show ?thesis using id1 ob1 by auto
  qed
qed

lemma Remove_inv:
  assumes ok: "coll_inv sz c" and r: "Remove sz c k = Inr (c', res)"
  shows "coll_inv sz c'"
proof -
  from r obtain old where rm: "remove sz c k = Inr (c', old)"
    by (cases "remove sz c k") (auto simp: Remove_def split: option.splits)
  from remove_inv [OF ok rm] show ?thesis by simp
qed

lemma SetField_inv:
  assumes ok: "coll_inv sz c" and r: "SetField c k field v = (c', res)"
  shows "coll_inv sz c'"
proof (cases "btree_Get (items c) k")
  case None
  with r ok show ?thesis by (simp add: SetField_def)
next
  case (Some item)
  obtain c1 item1 u where sf: "setField c item field v = (c1, item1, u)"
    by (cases "setField c item field v") auto
  with r Some have c': "c' = c1" by (simp add: SetField_def)
  from Some have "btree_Get (items c) (item_id item) = Some item" by (simp add: btree_Get_Some)
  from setField_inv [OF ok this sf] c' show ?thesis by simp
qed

lemma restore_rows_inv:
  "coll_inv sz c \<Longrightarrow> restore_rows oa sz c rows flds = Inr (c', err) \<Longrightarrow> coll_inv sz c'"
proof (induction rows arbitrary: c)
  case Nil
  then show ?case by simp
next
  case (Cons row rest)
  show ?case
  proof (cases "oa (Row_Obj row)")
    case (Inl e)
    with Cons.prems show ?thesis by simp
  next
    case (Inr obj)
    with Cons.prems(2) obtain c1 res where
      roi: "ReplaceOrInsert sz c (Row_Id row) obj flds (Row_Values row) = Inr (c1, res)"
      and rest: "restore_rows oa sz c1 rest flds = Inr (c', err)"
      by (cases "ReplaceOrInsert sz c (Row_Id row) obj flds (Row_Values row)") auto
    from ReplaceOrInsert_inv [OF Cons.prems(1) roi] have "coll_inv sz c1" by simp
    from Cons.IH [OF this rest] show ?thesis .
  qed
qed

lemma UnmarshalJSON_inv:
  assumes "coll_inv sz c" and "UnmarshalJSON ju oa sz c b = Inr (c', err)"
  shows "coll_inv sz c'"
  using assms
  by (auto simp: UnmarshalJSON_def split: option.splits sum.splits dest: restore_rows_inv)

lemma coll_inv_New: "coll_inv sz New"
  by (simp add: coll_inv_def counters_ok_def routed_def kinds_def New_def)

lemma reachable_inv: "reachable sz c \<Longrightarrow> coll_inv sz c"
proof (induction rule: reachable.induct)
  case reach_New
  show ?case by (rule coll_inv_New)
next
  case (reach_ReplaceOrInsert c k obj flds vals c' res)
  then show ?case using ReplaceOrInsert_inv by blast
next
  case (reach_Remove c k c' res)
  then show ?case using Remove_inv by blast
next
  case (reach_SetField c k field v c' res)
  then show ?case using SetField_inv by blast
next
  case (reach_UnmarshalJSON c json_Unmarshal ObjectAuto b c' err)
  then show ?case using UnmarshalJSON_inv by blast
qed

text \<open>
  C1: in every reachable state, \<open>Count\<close> is \<open>objects + nobjects\<close> and is the number of
  entries of the id-ordered tree; \<open>points\<close> is the sum of \<^verbatim>\<open>PositionCount()\<close> over the
  stored items and \<open>weight\<close> the sum of \<^verbatim>\<open>Weight() + len(id) + 8 * len(fields)\<close>.
\<close>

theorem counters_invariant:
  assumes "reachable sz c"
  shows "Count c = objects c + nobjects c \<and> Count c = int (length (items c)) \<and>
         list_all (wf_item sz) (items c) \<and>
         points c = (\<Sum>it\<leftarrow>items c. item_points it) \<and>
         weight c = (\<Sum>it\<leftarrow>items c. item_weight sz it)"
proof -
  from reachable_inv [OF assms] have ok: "counters_ok sz c" by (simp add: coll_inv_def)
  have "length (filter (\<lambda>it. IsGeometry (item_object it)) (items c))
        + length (filter (\<lambda>it. \<not> IsGeometry (item_object it)) (items c)) = length (items c)"
    by (rule sum_length_filter_compl)
  with ok show ?thesis by (auto simp: counters_ok_def Count_def)
qed

lemma roi_a: "ReplaceOrInsert 24 New ''a'' (point_at (1/2) (1/2)) None [] = Inr (col_a, None, (\<lambda>cap. []), [])"
  by (simp add: ReplaceOrInsert_def remove_def insert_item_def New_def btree_Get_def btree_Delete_def
      btree_ReplaceOrInsert_def point_at_def col_a_def Let_def)

theorem counters_invariant_witness:
  "reachable 24 col_a \<and> Count col_a = 1 \<and> points col_a = 1 \<and> weight col_a = 25 \<and>
   (\<Sum>it\<leftarrow>items col_a. item_weight 24 it) = 25"
proof -
  have r: "reachable 24 col_a"
    by (rule reach_ReplaceOrInsert [OF reach_New roi_a])
  from counters_invariant [OF r] r show ?thesis
    by (simp add: col_a_def)
qed


text \<open>
  C10: \<^verbatim>\<open>Remove\<close> of an id that is not in the collection returns not found, with nil
  object and nil fields, and the collection is unchanged.
\<close>

theorem Remove_absent_unchanged:
  assumes "k \<notin> set (map item_id (items c))"
  shows "Remove sz c k = Inr (c, None, [], False)"
proof -
  from assms have "btree_Get (items c) k = None" by (simp add: btree_Get_None)
  then show ?thesis by (simp add: Remove_def remove_def)
qed

theorem Remove_absent_unchanged_witness:
  "''b'' \<notin> set (map item_id (items col_a)) \<and> Remove 24 col_a ''b'' = Inr (col_a, None, [], False)"
proof -
  have h: "''b'' \<notin> set (map item_id (items col_a))" by (simp add: col_a_def)
  from Remove_absent_unchanged [OF h] h show ?thesis by simp
qed

lemma map_of_assign_slot: "map_of (assign_slot fm name) name = Some (slot_of fm name)"
  by (cases "map_of fm name") (simp_all add: assign_slot_def slot_of_def map_add_def)

lemma btree_Get_put_item:
  assumes "btree_Get (items c) k = Some item" and "item_id item' = k" and "items c2 = items c"
  shows "btree_Get (items (put_item c2 item')) k = Some item'"
  using find_put [of k "items c" item item'] assms by (simp add: btree_Get_def put_item_def)

text \<open>
  C7: \<^verbatim>\<open>SetField(id, name, value)\<close> on an id that exists: afterwards the registry has a
  slot for the name, the item's field vector is the prior one extended with zeros up to and
  including that slot, with the value written at the slot, and \<open>updated\<close> is true iff the
  prior value of the slot (zero when the vector did not reach it) differs from the value.
\<close>

theorem SetField_existing:
  assumes g: "Get c k = (Some obj0, old, True)"
    and r: "SetField c k name v = (c', obj, fs, updated, ok)"
  shows "ok \<and> obj = Some obj0 \<and>
    (\<exists>slot. map_of (fieldMap c') name = Some slot \<and>
       fs = (old @ replicate (Suc slot - length old) 0)[slot := v] \<and>
       slot < length fs \<and> fs ! slot = v \<and>
       updated = ((if slot < length old then old ! slot else 0) \<noteq> v)) \<and>
    Get c' k = (Some obj0, fs, True)"
proof -
  from g obtain item where bg: "btree_Get (items c) k = Some item"
    and o0: "item_object item = obj0" and old: "item_fields item = old"
    by (cases "btree_Get (items c) k") (auto simp: Get_def)
  from bg have idk: "item_id item = k" by (simp add: btree_Get_Some)
  let ?slot = "slot_of (fieldMap c) name"
  let ?fs = "old @ replicate (Suc ?slot - length old) 0"
  let ?item' = "item\<lparr>item_fields := ?fs[?slot := v]\<rparr>"
  have sf: "setField c item name v =
     (put_item (c\<lparr>fieldMap := assign_slot (fieldMap c) name,
                  weight := weight c - int (length old) * 8 + int (length ?fs) * 8\<rparr>) ?item',
      ?item', ?fs ! ?slot \<noteq> v)"
    by (simp add: setField_unfold Let_def extend_fields_eq old)
  from r bg sf have res: "c' = put_item (c\<lparr>fieldMap := assign_slot (fieldMap c) name,
                  weight := weight c - int (length old) * 8 + int (length ?fs) * 8\<rparr>) ?item'"
      "obj = Some obj0" "fs = ?fs[?slot := v]" "updated = (?fs ! ?slot \<noteq> v)" "ok"
    by (auto simp: SetField_def o0)
  have len: "?slot < length ?fs" by simp
  have fm: "fieldMap c' = assign_slot (fieldMap c) name" by (simp add: res(1) put_item_def)
  have prior: "?fs ! ?slot = (if ?slot < length old then old ! ?slot else 0)"
    by (simp add: nth_append)
  have "btree_Get (items c') k = Some ?item'"
    unfolding res(1) by (rule btree_Get_put_item [OF bg]) (simp_all add: idk)
  then have get': "Get c' k = (Some obj0, fs, True)"
    by (simp add: Get_def o0 res(3))
  have "map_of (fieldMap c') name = Some ?slot \<and> fs = ?fs[?slot := v] \<and> ?slot < length fs
      \<and> fs ! ?slot = v \<and> updated = ((if ?slot < length old then old ! ?slot else 0) \<noteq> v)"
    using fm res(3,4) len prior by (simp add: map_of_assign_slot)
  then show ?thesis using res(2,5) get' by blast
qed

theorem SetField_existing_witness:
  "Get col_a ''a'' = (Some (point_at (1/2) (1/2)), [], True) \<and>
   SetField col_a ''a'' ''y'' 7 =
     (col_a\<lparr>items := [\<lparr>item_id = ''a'', item_object = point_at (1/2) (1/2), item_fields = [7]\<rparr>],
            fieldMap := [(''y'', 0)], weight := 33\<rparr>,
      Some (point_at (1/2) (1/2)), [7], True, True) \<and>
   Get (col_a\<lparr>items := [\<lparr>item_id = ''a'', item_object = point_at (1/2) (1/2), item_fields = [7]\<rparr>],
            fieldMap := [(''y'', 0)], weight := 33\<rparr>) ''a'' = (Some (point_at (1/2) (1/2)), [7], True)"
proof -
  have g: "Get col_a ''a'' = (Some (point_at (1/2) (1/2)), [], True)"
    by (simp add: Get_def btree_Get_def col_a_def)
  have s: "SetField col_a ''a'' ''y'' 7 =
     (col_a\<lparr>items := [\<lparr>item_id = ''a'', item_object = point_at (1/2) (1/2), item_fields = [7]\<rparr>],
            fieldMap := [(''y'', 0)], weight := 33\<rparr>,
      Some (point_at (1/2) (1/2)), [7], True, True)"
    by (simp add: SetField_def setField_unfold slot_of_def assign_slot_def extend_fields_eq
        put_item_def btree_Get_def col_a_def Let_def)
  from SetField_existing [OF g s] g s show ?thesis by simp
qed

lemma set_first_occ: "set (first_occ ns) = set ns"
  by (induction ns) auto

lemma distinct_first_occ: "distinct (first_occ ns)"
  by (induction ns) auto

lemma first_occ_snoc:
  "first_occ (ns @ [f]) = (if f \<in> set ns then first_occ ns else first_occ ns @ [f])"
  by (induction ns) (auto simp: set_first_occ)

lemma map_of_registry_None: "map_of (registry_of names) f = None \<longleftrightarrow> f \<notin> set names"
proof -
  have "map fst (zip names [0..<length names]) = names" by simp
  then have "fst ` set (zip names [0..<length names]) = set names"
    by (metis set_map)
  then show ?thesis by (simp add: registry_of_def map_of_eq_None_iff)
qed

lemma assign_slot_registry:
  "assign_slot (registry_of (first_occ ns)) f = registry_of (first_occ (ns @ [f]))"
proof (cases "f \<in> set ns")
  case True
  then have "map_of (registry_of (first_occ ns)) f \<noteq> None"
    by (simp add: map_of_registry_None set_first_occ)
  then show ?thesis using True by (auto simp: assign_slot_def first_occ_snoc)
next
  case False
  then have "map_of (registry_of (first_occ ns)) f = None"
    by (simp add: map_of_registry_None set_first_occ)
  then have "assign_slot (registry_of (first_occ ns)) f
      = registry_of (first_occ ns) @ [(f, length (registry_of (first_occ ns)))]"
    by (simp add: assign_slot_def)
  also have "\<dots> = registry_of (first_occ ns @ [f])"
    by (simp add: registry_of_def)
  finally show ?thesis using False by (simp add: first_occ_snoc)
qed

lemma fold_assign_slot_registry:
  "fold (\<lambda>f fm. assign_slot fm f) fs (registry_of (first_occ ns)) = registry_of (first_occ (ns @ fs))"
proof (induction fs arbitrary: ns)
  case Nil
  show ?case by simp
next
  case (Cons f fs)
  have "fold (\<lambda>f fm. assign_slot fm f) (f # fs) (registry_of (first_occ ns))
        = fold (\<lambda>f fm. assign_slot fm f) fs (registry_of (first_occ (ns @ [f])))"
    by (simp add: assign_slot_registry)
  also have "\<dots> = registry_of (first_occ ((ns @ [f]) @ fs))" by (rule Cons.IH)
  finally show ?case by simp
qed

lemma fill_arr_zip:
  "k + length xs \<le> length arr \<Longrightarrow>
   fill_arr (zip xs [k..<k + length xs]) arr = Inr (take k arr @ xs @ drop (k + length xs) arr)"
proof (induction xs arbitrary: k arr)
  case Nil
  show ?case by simp
next
  case (Cons x xs)
  have z: "zip (x # xs) [k..<k + length (x # xs)] = (x, k) # zip xs [Suc k..<Suc k + length xs]"
    by (simp add: upt_conv_Cons del: upt_Suc)
  have le: "Suc k + length xs \<le> length (arr[k := x])" using Cons.prems by simp
  have lt: "k < length arr" using Cons.prems by simp
  have "fill_arr (zip (x # xs) [k..<k + length (x # xs)]) arr
        = fill_arr (zip xs [Suc k..<Suc k + length xs]) (arr[k := x])"
    using lt by (simp only: z fill_arr.simps if_True)
  also have "\<dots> = Inr (take (Suc k) (arr[k := x]) @ xs @ drop (Suc k + length xs) (arr[k := x]))"
    by (rule Cons.IH [OF le])
  also have "take (Suc k) (arr[k := x]) = take k arr @ [x]"
    using lt by (simp add: take_Suc_conv_app_nth)
  also have "drop (Suc k + length xs) (arr[k := x]) = drop (k + length (x # xs)) arr"
    by simp
  finally show ?case by simp
qed

lemma FieldArr_registry: "fieldMap c = registry_of names \<Longrightarrow> FieldArr c = Inr names"
  using fill_arr_zip [of 0 names "replicate (length names) []"]
  by (simp add: FieldArr_def registry_of_def)

lemma remove_fieldMap: "remove sz c k = Inr (c', r) \<Longrightarrow> fieldMap c' = fieldMap c"
  by (auto simp: remove_def Let_def split: option.splits if_splits sum.splits)

lemma insert_item_fieldMap: "insert_item sz c k obj = Inr (c', it) \<Longrightarrow> fieldMap c' = fieldMap c"
  by (drule insert_item_Inr) auto

lemma setField_fieldMap:
  "setField c item f v = (c', item', u) \<Longrightarrow> fieldMap c' = assign_slot (fieldMap c) f"
  by (auto simp: setField_unfold Let_def put_item_def)

lemma setFields_fieldMap:
  "setFields c item fs vs i = Inr (c', item') \<Longrightarrow>
   fieldMap c' = fold (\<lambda>f fm. assign_slot fm f) fs (fieldMap c)"
proof (induction fs arbitrary: c item i)
  case Nil
  then show ?case by simp
next
  case (Cons f fs)
  from Cons.prems have lt: "i < length vs" by (simp split: if_splits)
  obtain c1 item1 u where sf: "setField c item f (vs ! i) = (c1, item1, u)"
    by (cases "setField c item f (vs ! i)") auto
  with Cons.prems lt have rest: "setFields c1 item1 fs vs (Suc i) = Inr (c', item')" by simp
  from Cons.IH [OF rest] setField_fieldMap [OF sf] show ?case by simp
qed

lemma ReplaceOrInsert_fieldMap:
  assumes "ReplaceOrInsert sz c k obj flds vals = Inr (c', res)"
  shows "fieldMap c' = fold (\<lambda>f fm. assign_slot fm f) (case flds of None \<Rightarrow> [] | Some fs \<Rightarrow> fs) (fieldMap c)"
proof -
  from assms obtain c1 old where rm: "remove sz c k = Inr (c1, old)"
    by (cases "remove sz c k") (auto simp: ReplaceOrInsert_def)
  from assms rm obtain c2 nitem where ins: "insert_item sz c1 k obj = Inr (c2, nitem)"
    by (cases "insert_item sz c1 k obj") (auto simp: ReplaceOrInsert_def)
  have fm2: "fieldMap c2 = fieldMap c"
    using remove_fieldMap [OF rm] insert_item_fieldMap [OF ins] by simp
  show ?thesis
  proof (cases "flds = None \<and> length vals > 0")
    case True
    with assms rm ins fm2 show ?thesis
      by (auto simp: ReplaceOrInsert_def Let_def put_item_def split: option.splits)
  next
    case False
    with assms rm ins fm2 show ?thesis
      by (auto simp: ReplaceOrInsert_def Let_def put_item_def
          split: option.splits sum.splits if_splits dest!: setFields_fieldMap)
  qed
qed

lemma Remove_fieldMap: "Remove sz c k = Inr (c', res) \<Longrightarrow> fieldMap c' = fieldMap c"
  by (auto simp: Remove_def split: sum.splits option.splits dest: remove_fieldMap)

lemma SetField_fieldMap:
  assumes "SetField c k field v = (c', res)"
  shows "fieldMap c' = (if k \<in> item_id ` set (items c) then assign_slot (fieldMap c) field
                        else fieldMap c)"
proof (cases "btree_Get (items c) k")
  case None
  with assms have "c' = c" by (simp add: SetField_def)
  with None show ?thesis by (simp add: btree_Get_None)
next
  case (Some item)
  obtain c1 item1 u where sf: "setField c item field v = (c1, item1, u)"
    by (cases "setField c item field v") auto
  with assms Some have "c' = c1" by (simp add: SetField_def)
  moreover from Some have "k \<in> item_id ` set (items c)"
    using btree_Get_None [of "items c" k] by simp
  ultimately show ?thesis using setField_fieldMap [OF sf] by simp
qed

lemma history_registry: "history sz c ns \<Longrightarrow> fieldMap c = registry_of (first_occ ns)"
proof (induction rule: history.induct)
  case hist_New
  show ?case by (simp add: New_def registry_of_def)
next
  case (hist_ReplaceOrInsert c ns k obj flds vals c' res)
  from ReplaceOrInsert_fieldMap [OF hist_ReplaceOrInsert.hyps(2)] hist_ReplaceOrInsert.IH
  show ?case by (simp add: fold_assign_slot_registry)
next
  case (hist_Remove c ns k c' res)
  then show ?case by (simp add: Remove_fieldMap)
next
  case (hist_SetField c ns k field v c' res)
  from SetField_fieldMap [OF hist_SetField.hyps(2)] hist_SetField.IH
  show ?case by (simp add: assign_slot_registry)
qed

lemma first_occ_append:
  "first_occ (ns @ ms) = first_occ ns @ filter (\<lambda>m. m \<notin> set ns) (first_occ ms)"
  by (induction ns) (auto simp: set_first_occ intro: filter_cong)

lemma map_of_registry_nth:
  "distinct names \<Longrightarrow> i < length names \<Longrightarrow> map_of (registry_of names) (names ! i) = Some i"
  unfolding registry_of_def
  by (rule map_of_is_SomeI) (auto simp: set_zip)

text \<open>
  C8: after any sequence of field writes, the registry gives every name the position of its
  first appearance among the distinct names; \<^verbatim>\<open>FieldArr\<close> is the array of these names
  in slot order, of the size of the registry; and in a state whose sequence of writes
  extends this one every name keeps its slot.
\<close>

theorem registry_slots:
  assumes h: "history sz c ns" and h': "history sz c' (ns @ ms)"
  shows "fieldMap c = zip (first_occ ns) [0..<length (first_occ ns)] \<and>
         distinct (first_occ ns) \<and>
         FieldArr c = Inr (first_occ ns) \<and>
         (\<exists>rest. FieldArr c' = Inr (first_occ ns @ rest)) \<and>
         (\<forall>i < length (first_occ ns).
            map_of (fieldMap c) (first_occ ns ! i) = Some i \<and>
            map_of (fieldMap c') (first_occ ns ! i) = Some i)"
proof -
  let ?names = "first_occ ns"
  let ?rest = "filter (\<lambda>m. m \<notin> set ns) (first_occ ms)"
  have fm: "fieldMap c = registry_of ?names" by (rule history_registry [OF h])
  have fm': "fieldMap c' = registry_of (?names @ ?rest)"
    using history_registry [OF h'] by (simp add: first_occ_append)
  have d: "distinct ?names" by (rule distinct_first_occ)
  have d': "distinct (?names @ ?rest)"
    using distinct_first_occ [of "ns @ ms"] by (simp add: first_occ_append)
  have slots: "map_of (fieldMap c) (?names ! i) = Some i \<and> map_of (fieldMap c') (?names ! i) = Some i"
    if "i < length ?names" for i
  proof -
    have "map_of (registry_of ?names) (?names ! i) = Some i"
      by (rule map_of_registry_nth [OF d that])
    moreover have "map_of (registry_of (?names @ ?rest)) ((?names @ ?rest) ! i) = Some i"
      by (rule map_of_registry_nth [OF d']) (use that in simp)
    ultimately show ?thesis using that by (simp add: fm fm' nth_append)
  qed
  have "FieldArr c' = Inr (?names @ ?rest)" by (rule FieldArr_registry [OF fm'])
  then have "\<exists>rest. FieldArr c' = Inr (?names @ rest)" by blast
  with fm d FieldArr_registry [OF fm] slots show ?thesis
    by (simp add: registry_of_def)
qed

lemma SetField_a_speed:
  "SetField col_a ''a'' ''speed'' 10 = (col_a1, Some (point_at (1/2) (1/2)), [10], True, True)"
  by (simp add: SetField_def setField_unfold slot_of_def assign_slot_def extend_fields_eq
      put_item_def btree_Get_def col_a_def col_a1_def Let_def)

lemma SetField_a_heading:
  "SetField col_a1 ''a'' ''heading'' 90 = (col_a2, Some (point_at (1/2) (1/2)), [10, 90], True, True)"
  by (simp add: SetField_def setField_unfold slot_of_def assign_slot_def extend_fields_eq
      put_item_def btree_Get_def col_a_def col_a1_def col_a2_def Let_def)

theorem registry_slots_witness:
  "history 24 col_a1 [''speed''] \<and> history 24 col_a2 ([''speed''] @ [''heading'']) \<and>
   FieldArr col_a1 = Inr [''speed''] \<and> FieldArr col_a2 = Inr [''speed'', ''heading''] \<and>
   map_of (fieldMap col_a2) ''speed'' = Some 0"
proof -
  have h0: "history 24 col_a ([] @ (case None of None \<Rightarrow> [] | Some fs \<Rightarrow> fs))"
    by (rule hist_ReplaceOrInsert [OF hist_New roi_a])
  then have h0': "history 24 col_a []" by simp
  have h1: "history 24 col_a1 ([] @ (if ''a'' \<in> item_id ` set (items col_a) then [''speed''] else []))"
    by (rule hist_SetField [OF h0' SetField_a_speed])
  then have h1': "history 24 col_a1 [''speed'']" by (simp add: col_a_def)
  have h2: "history 24 col_a2
      ([''speed''] @ (if ''a'' \<in> item_id ` set (items col_a1) then [''heading''] else []))"
    by (rule hist_SetField [OF h1' SetField_a_heading])
  then have h2': "history 24 col_a2 ([''speed''] @ [''heading''])" by (simp add: col_a1_def col_a_def)
  from registry_slots [OF h1' h2'] h1' h2' show ?thesis
    by (simp add: FieldArr_def col_a2_def col_a_def)
qed

lemma ilog_up_1: "ilog_up 1 = 0"
  by (simp add: ilog_up.simps)

lemma ilog_up_2: "ilog_up 2 = 1"
  by (simp add: ilog_up.simps [of 2] ilog_up_1)

lemma pow2_m52: "pow2 (- 52) = 1 / 2 ^ 52"
  by (simp add: pow2_def)

lemma pow2_m51: "pow2 (- 51) = 1 / 2 ^ 51"
  by (simp add: pow2_def)

lemma pow2_1024: "pow2 1024 = 2 ^ 1024"
  by (simp add: pow2_def)

lemma round_f64_0: "round_f64 0 = Fin 0"
  by (simp add: round_f64_def)

lemma round_f64_1: "round_f64 1 = Fin 1"
  unfolding round_f64_def Let_def by (simp add: ilog_up_1 pow2_m52 pow2_1024)

lemma round_f64_2: "round_f64 2 = Fin 2"
  unfolding round_f64_def Let_def by (simp add: ilog_up_2 pow2_m51 pow2_1024)

lemmas float_eval = round_f64_0 round_f64_1 round_f64_2 fsub_def float64_of_int_def shift_left_one_def

lemma row0:
  "row_tiles (Fin 0) (Fin 2) (Fin 1) (Fin y) (Fin 1) (Fin 0) (Fin 0) =
   Some [\<lparr>MinP = \<lparr>X = Fin 0, Y = Fin y, Z = Fin 0\<rparr>, MaxP = \<lparr>X = Fin 1, Y = fadd (Fin y) (Fin 1), Z = Fin 0\<rparr>\<rparr>,
         \<lparr>MinP = \<lparr>X = Fin 1, Y = Fin y, Z = Fin 0\<rparr>, MaxP = \<lparr>X = Fin 2, Y = fadd (Fin y) (Fin 1), Z = Fin 0\<rparr>\<rparr>]"
proof -
  have 3: "row_tiles (Fin 2) (Fin 2) (Fin 1) (Fin y) (Fin 1) (Fin 0) (Fin 0) = Some []"
    by (subst row_tiles.simps) simp
  have 2: "row_tiles (Fin 1) (Fin 2) (Fin 1) (Fin y) (Fin 1) (Fin 0) (Fin 0) =
      Some [\<lparr>MinP = \<lparr>X = Fin 1, Y = Fin y, Z = Fin 0\<rparr>, MaxP = \<lparr>X = Fin 2, Y = fadd (Fin y) (Fin 1), Z = Fin 0\<rparr>\<rparr>]"
    by (subst row_tiles.simps) (simp add: round_f64_2 3)
  show ?thesis
    by (subst row_tiles.simps) (simp add: round_f64_1 2)
qed

lemma tiles4_eq:
  "Intersects_bboxes (rect_at 0 0 2 2) 1 (Fin 0) (Fin 0) = Some tiles4"
proof -
  have 3: "all_tiles (Fin 2) (Fin 2) (Fin 1) (Fin 0) (Fin 2) (Fin 1) (Fin 0) (Fin 0) = Some []"
    by (subst all_tiles.simps) simp
  have 2: "all_tiles (Fin 1) (Fin 2) (Fin 1) (Fin 0) (Fin 2) (Fin 1) (Fin 0) (Fin 0) =
      Some [rect_at 0 1 1 2, rect_at 1 1 2 2]"
    by (subst all_tiles.simps) (simp add: row0 round_f64_2 3 rect_at_def)
  have 1: "all_tiles (Fin 0) (Fin 2) (Fin 1) (Fin 0) (Fin 2) (Fin 1) (Fin 0) (Fin 0) = Some tiles4"
    by (subst all_tiles.simps) (simp add: row0 round_f64_1 2 rect_at_def tiles4_def)
  show ?thesis
    by (simp add: Intersects_bboxes_def rect_at_def float_eval 1)
qed

lemma tiles4_Suc:
  "Intersects_bboxes (rect_at 0 0 2 2) (Suc 0) (Fin 0) (Fin 0) = Some tiles4"
  using tiles4_eq by simp

text \<open>
  From sparse level 64 on \<^verbatim>\<open>split\<close> is zero and the parts are infinite: the loops end
  after one tile, which reaches from the minimum of the box to infinity.
\<close>

lemma tiles_sparse_64:
  "Intersects_bboxes (rect_at 0 0 2 2) 64 (Fin 0) (Fin 0) =
     Some [\<lparr>MinP = \<lparr>X = Fin 0, Y = Fin 0, Z = Fin 0\<rparr>, MaxP = \<lparr>X = PInf, Y = PInf, Z = Fin 0\<rparr>\<rparr>]"
proof -
  have 3: "row_tiles PInf (Fin 2) PInf (Fin 0) PInf (Fin 0) (Fin 0) = Some []"
    by (subst row_tiles.simps) simp
  have 2: "row_tiles (Fin 0) (Fin 2) PInf (Fin 0) PInf (Fin 0) (Fin 0) =
     Some [\<lparr>MinP = \<lparr>X = Fin 0, Y = Fin 0, Z = Fin 0\<rparr>, MaxP = \<lparr>X = PInf, Y = PInf, Z = Fin 0\<rparr>\<rparr>]"
    by (subst row_tiles.simps) (simp add: 3)
  have 1: "all_tiles PInf (Fin 2) PInf (Fin 0) (Fin 2) PInf (Fin 0) (Fin 0) = Some []"
    by (subst all_tiles.simps) simp
  have 0: "all_tiles (Fin 0) (Fin 2) PInf (Fin 0) (Fin 2) PInf (Fin 0) (Fin 0) =
     Some [\<lparr>MinP = \<lparr>X = Fin 0, Y = Fin 0, Z = Fin 0\<rparr>, MaxP = \<lparr>X = PInf, Y = PInf, Z = Fin 0\<rparr>\<rparr>]"
    by (subst all_tiles.simps) (simp add: 2 1)
  show ?thesis
    by (simp add: Intersects_bboxes_def rect_at_def float_eval 0)
qed

text \<open>
  The tiles are built with the rounding of \<^verbatim>\<open>float64\<close>: for the box from 0.1 to 1.3 at
  sparse level 1 the parts are 0.6, and \<open>x\<close> and \<open>y\<close> take three values below 1.3, so that
  the box has nine tiles (in exact arithmetic it would have four).
\<close>

lemma pow2_m53: "pow2 (- 53) = 1 / 2 ^ 53"
  by (simp add: pow2_def)

lemma ilog_12: "ilog_up (43234556422756763 / 36028797018963968) = 0"
  by (simp add: ilog_up.simps)

lemma ilog_06: "ilog_down (5404319552844595 / 9007199254740992) = - 1"
  by (simp add: ilog_down.simps [of "5404319552844595 / 9007199254740992"]
      ilog_down.simps [of "5404319552844595 / 4503599627370496"])

lemma ilog_07: "ilog_down (25220157913274777 / 36028797018963968) = - 1"
  by (simp add: ilog_down.simps [of "25220157913274777 / 36028797018963968"]
      ilog_down.simps [of "25220157913274777 / 18014398509481984"])

lemma ilog_13: "ilog_up (11709359031163289 / 9007199254740992) = 0"
  by (simp add: ilog_up.simps)

lemma ilog_19: "ilog_up (17113678584007883 / 9007199254740992) = 0"
  by (simp add: ilog_up.simps)

lemma round_12: "round_f64 (d13 - d01) = Fin (2 * d06)"
  unfolding round_f64_def Let_def d13_def d01_def d06_def by (simp add: ilog_12 pow2_m52 pow2_1024)

lemma round_06: "round_f64 (2 * d06 / 2) = Fin d06"
  unfolding round_f64_def Let_def d06_def by (simp add: ilog_06 pow2_m53 pow2_1024)

lemma round_07: "round_f64 (d01 + d06) = Fin d07"
  unfolding round_f64_def Let_def d01_def d06_def d07_def by (simp add: ilog_07 pow2_m53 pow2_1024)

lemma round_13: "round_f64 (d07 + d06) = Fin d13_below"
  unfolding round_f64_def Let_def d07_def d06_def d13_below_def by (simp add: ilog_13 pow2_m52 pow2_1024)

lemma round_19: "round_f64 (d13_below + d06) = Fin d19"
  unfolding round_f64_def Let_def d13_below_def d06_def d19_def by (simp add: ilog_19 pow2_m52 pow2_1024)

lemma doubles_order: "d01 < d13" "d07 < d13" "d13_below < d13" "\<not> d19 < d13" "d06 \<noteq> 0"
  by (simp_all add: d01_def d07_def d13_below_def d13_def d19_def d06_def)


lemma row_rounding:
  "row_tiles (Fin d01) (Fin d13) (Fin d06) y ypart (Fin 0) (Fin 0) =
   Some [\<lparr>MinP = \<lparr>X = Fin d01, Y = y, Z = Fin 0\<rparr>, MaxP = \<lparr>X = Fin d07, Y = fadd y ypart, Z = Fin 0\<rparr>\<rparr>,
         \<lparr>MinP = \<lparr>X = Fin d07, Y = y, Z = Fin 0\<rparr>, MaxP = \<lparr>X = Fin d13_below, Y = fadd y ypart, Z = Fin 0\<rparr>\<rparr>,
         \<lparr>MinP = \<lparr>X = Fin d13_below, Y = y, Z = Fin 0\<rparr>, MaxP = \<lparr>X = Fin d19, Y = fadd y ypart, Z = Fin 0\<rparr>\<rparr>]"
proof -
  have 4: "row_tiles (Fin d19) (Fin d13) (Fin d06) y ypart (Fin 0) (Fin 0) = Some []"
    by (subst row_tiles.simps) (simp add: doubles_order)
  have 3: "row_tiles (Fin d13_below) (Fin d13) (Fin d06) y ypart (Fin 0) (Fin 0) =
     Some [\<lparr>MinP = \<lparr>X = Fin d13_below, Y = y, Z = Fin 0\<rparr>, MaxP = \<lparr>X = Fin d19, Y = fadd y ypart, Z = Fin 0\<rparr>\<rparr>]"
    by (subst row_tiles.simps) (simp add: doubles_order round_19 4)
  have 2: "row_tiles (Fin d07) (Fin d13) (Fin d06) y ypart (Fin 0) (Fin 0) =
     Some [\<lparr>MinP = \<lparr>X = Fin d07, Y = y, Z = Fin 0\<rparr>, MaxP = \<lparr>X = Fin d13_below, Y = fadd y ypart, Z = Fin 0\<rparr>\<rparr>,
           \<lparr>MinP = \<lparr>X = Fin d13_below, Y = y, Z = Fin 0\<rparr>, MaxP = \<lparr>X = Fin d19, Y = fadd y ypart, Z = Fin 0\<rparr>\<rparr>]"
    by (subst row_tiles.simps) (simp add: doubles_order round_13 3)
  show ?thesis
    by (subst row_tiles.simps) (simp add: doubles_order round_07 2)
qed

lemma tiles_rounding:
  "Intersects_bboxes (rect_at d01 d01 d13 d13) 1 (Fin 0) (Fin 0) =
     Some [rect_at d01 d01 d07 d07, rect_at d07 d01 d13_below d07, rect_at d13_below d01 d19 d07,
           rect_at d01 d07 d07 d13_below, rect_at d07 d07 d13_below d13_below,
           rect_at d13_below d07 d19 d13_below,
           rect_at d01 d13_below d07 d19, rect_at d07 d13_below d13_below d19,
           rect_at d13_below d13_below d19 d19]"
proof -
  have 4: "all_tiles (Fin d19) (Fin d13) (Fin d06) (Fin d01) (Fin d13) (Fin d06) (Fin 0) (Fin 0) = Some []"
    by (subst all_tiles.simps) (simp add: doubles_order)
  have 3: "all_tiles (Fin d13_below) (Fin d13) (Fin d06) (Fin d01) (Fin d13) (Fin d06) (Fin 0) (Fin 0) =
     Some [rect_at d01 d13_below d07 d19, rect_at d07 d13_below d13_below d19,
           rect_at d13_below d13_below d19 d19]"
    by (subst all_tiles.simps) (simp add: doubles_order row_rounding round_19 4 rect_at_def)
  have 2: "all_tiles (Fin d07) (Fin d13) (Fin d06) (Fin d01) (Fin d13) (Fin d06) (Fin 0) (Fin 0) =
     Some [rect_at d01 d07 d07 d13_below, rect_at d07 d07 d13_below d13_below,
           rect_at d13_below d07 d19 d13_below,
           rect_at d01 d13_below d07 d19, rect_at d07 d13_below d13_below d19,
           rect_at d13_below d13_below d19 d19]"
    by (subst all_tiles.simps) (simp add: doubles_order row_rounding round_13 3 rect_at_def)
  have 1: "all_tiles (Fin d01) (Fin d13) (Fin d06) (Fin d01) (Fin d13) (Fin d06) (Fin 0) (Fin 0) =
     Some [rect_at d01 d01 d07 d07, rect_at d07 d01 d13_below d07, rect_at d13_below d01 d19 d07,
           rect_at d01 d07 d07 d13_below, rect_at d07 d07 d13_below d13_below,
           rect_at d13_below d07 d19 d13_below,
           rect_at d01 d13_below d07 d19, rect_at d07 d13_below d13_below d19,
           rect_at d13_below d13_below d19 d19]"
    by (subst all_tiles.simps) (simp add: doubles_order row_rounding round_07 2 rect_at_def)
  have part: "fdiv (fsub (Fin d13) (Fin d01)) (float64_of_int (shift_left_one (Suc 0))) = Fin d06"
    using round_12 round_06 doubles_order
    by (simp add: fsub_def float64_of_int_def shift_left_one_def round_f64_2)
  show ?thesis
    by (simp add: Intersects_bboxes_def Let_def rect_at_def part 1)
qed

lemma scan_loop_run_visits:
  "snd (scan_loop cursor cb xs i s) = snd (run_visits cb (drop (cursor - i) xs) s)"
proof (induction xs arbitrary: i s)
  case Nil
  show ?case by simp
next
  case (Cons x xs)
  show ?case
  proof (cases "i \<ge> cursor")
    case True
    then have d: "cursor - i = 0" "cursor - Suc i = 0" by simp_all
    obtain active s' where cb: "cb x s = (active, s')" by (cases "cb x s") auto
    show ?thesis using True cb Cons.IH [of "Suc i" s'] by (cases active) (simp_all add: d)
  next
    case False
    then have d: "cursor - i = Suc (cursor - Suc i)" by simp
    show ?thesis using False Cons.IH [of "Suc i" s] by (simp add: d)
  qed
qed

lemma geoSearch_wrapper:
  "(\<lambda>iitm s. case iterator iitm s of (r, s') \<Rightarrow> if \<not> r then (False, s') else (True, s')) = iterator"
  by (intro ext) (auto split: prod.splits)

lemma position_rebuild: "\<lparr>X = X p, Y = Y p, Z = Z p\<rparr> = (p::Position)"
  by simp

lemma bbox_rebuild:
  "\<lparr>MinP = \<lparr>X = X (MinP b), Y = Y (MinP b), Z = Z (MinP b)\<rparr>,
    MaxP = \<lparr>X = X (MaxP b), Y = Y (MaxP b), Z = Z (MaxP b)\<rparr>\<rparr> = (b::BBox)"
  by (simp add: position_rebuild)

lemma geoSearch_scan:
  "geoSearch G c cursor bbox iterator s = scan_loop cursor iterator (candidates G c bbox) 0 s"
  by (simp only: geoSearch_def index_Search_def candidates_def geoSearch_wrapper bbox_rebuild)

lemma geoSearch_sparse:
  "snd (geoSearch G c cursor tile (sparse_cb refine iterator) s) = tile_visits G c cursor tile refine iterator s"
  by (simp add: geoSearch_scan scan_loop_run_visits tile_visits_def)

lemma Nearby_tiles_fold:
  "Nearby_tiles G c cursor center meters minZ maxZ iterator tiles s =
   fold (\<lambda>tile. tile_visits G c cursor (with_Z tile minZ maxZ) (\<lambda>ob. g_Nearby G ob center meters) iterator) tiles s"
  by (induction tiles arbitrary: s) (simp_all add: geoSearch_sparse with_Z_def Let_def)

lemma Within_tiles_fold:
  "Within_tiles G c cursor obj iterator tiles s =
   fold (\<lambda>tile s. tile_visits G c cursor tile (\<lambda>ob. g_WithinBBox G ob tile) iterator
           (case obj of Some target \<Rightarrow> tile_visits G c cursor tile (\<lambda>ob. g_Within G ob target) iterator s
                      | None \<Rightarrow> s)) tiles s"
  by (induction tiles arbitrary: s) (simp_all add: geoSearch_sparse Let_def split: option.splits)

lemma Intersects_tiles_fold:
  "Intersects_tiles G c cursor obj iterator tiles s =
   fold (\<lambda>tile s. tile_visits G c cursor tile (\<lambda>ob. g_IntersectsBBox G ob tile) iterator
           (case obj of Some target \<Rightarrow> tile_visits G c cursor tile (\<lambda>ob. g_Intersects G ob target) iterator s
                      | None \<Rightarrow> s)) tiles s"
  by (induction tiles arbitrary: s) (simp_all add: geoSearch_sparse Let_def split: option.splits)


text \<open>
  C2 (as the code has it): a sparse query returns cursor 0, and every tile search is run
  with the cursor of the caller: in each tile the first \<open>cursor\<close> items of the tile are
  skipped. \<^verbatim>\<open>Nearby\<close> always returns; \<^verbatim>\<open>Within\<close> returns when the bounding box of the
  target can be computed, and \<^verbatim>\<open>Intersects\<close> when moreover the loops that build its tiles
  end.
\<close>

theorem sparse_tiles_use_cursor:
  assumes sp: "sparse > 0"
  shows
    "Nearby G c cursor sparse lat lon meters minZ maxZ iterator s =
       (0, fold (\<lambda>tile. tile_visits G c cursor (with_Z tile minZ maxZ)
                          (\<lambda>ob. g_Nearby G ob \<lparr>X = lon, Y = lat, Z = Fin 0\<rparr> meters) iterator)
             (g_Sparse G (g_BBoxesFromCenter G lat lon meters) sparse) s) \<and>
     (\<forall>bbox. query_bbox obj minLat minLon maxLat maxLon minZ maxZ = Inr bbox \<longrightarrow>
        Within G c cursor sparse obj minLat minLon maxLat maxLon minZ maxZ iterator s =
          Inr (0, fold (\<lambda>tile s. tile_visits G c cursor tile (\<lambda>ob. g_WithinBBox G ob tile) iterator
                         (case obj of
                            Some target \<Rightarrow> tile_visits G c cursor tile (\<lambda>ob. g_Within G ob target) iterator s
                          | None \<Rightarrow> s))
                    (g_Sparse G bbox sparse) s)) \<and>
     (\<forall>bbox tiles. query_bbox obj minLat minLon maxLat maxLon minZ maxZ = Inr bbox \<and>
        Intersects_bboxes bbox sparse minZ maxZ = Some tiles \<longrightarrow>
        Intersects G c cursor sparse obj minLat minLon maxLat maxLon maxZ minZ iterator s =
          Some (Inr (0, fold (\<lambda>tile s. tile_visits G c cursor tile (\<lambda>ob. g_IntersectsBBox G ob tile) iterator
                         (case obj of
                            Some target \<Rightarrow> tile_visits G c cursor tile (\<lambda>ob. g_Intersects G ob target) iterator s
                          | None \<Rightarrow> s))
                    tiles s)))"
  using sp
  by (simp add: Nearby_def Within_def Intersects_def Let_def
      Nearby_tiles_fold Within_tiles_fold Intersects_tiles_fold)

lemmas query_eval =
  Intersects_def Within_def Nearby_def query_bbox_def Intersects_tiles.simps Within_tiles.simps
  Nearby_tiles.simps geoSearch_scan candidates_def
  index_items_def List.map_filter_def btree_Get_def geo_sample_def obj_overlaps_def rect_overlap_def
  rect_inside_def point_at_def rect_at_def col_ab_def sparse_cb_def plain_cb_def tiles4_def Let_def
  tiles4_eq [unfolded rect_at_def] tiles4_Suc [unfolded rect_at_def]
  tiles_sparse_64 [unfolded rect_at_def] float_eval

lemma eval_go_cursor0:
  "Intersects geo_sample col_ab 0 1 None (Fin 0) (Fin 0) (Fin 2) (Fin 2) (Fin 0) (Fin 0) record_go []
     = Some (Inr (0, [''a'', ''b'']))"
  by (simp add: query_eval record_go_def)

lemma eval_go_cursor1:
  "Intersects geo_sample col_ab 1 1 None (Fin 0) (Fin 0) (Fin 2) (Fin 2) (Fin 0) (Fin 0) record_go []
     = Some (Inr (0, []))"
  by (simp add: query_eval record_go_def)

lemma eval_go_sparse_64:
  "Intersects geo_sample col_ab 1 64 None (Fin 0) (Fin 0) (Fin 2) (Fin 2) (Fin 0) (Fin 0) record_go []
     = Some (Inr (0, [''b'']))"
  by (simp add: query_eval record_go_def)

lemma eval_within_cursor1:
  "Within geo_sample col_ab 1 1 None (Fin 0) (Fin 0) (Fin 2) (Fin 2) (Fin 0) (Fin 0) record_go []
     = Inr (0, [''b''])"
  by (simp add: query_eval record_go_def)

lemma eval_nearby_cursor1:
  "Nearby geo_sample col_ab 1 1 (Fin 1) (Fin 1) (Fin 1) (Fin 0) (Fin 0) record_go [] = (0, [''b''])"
  by (simp add: query_eval record_go_def)


lemma eval_target_plain:
  "Intersects geo_sample col_ab 0 0 (Some polygon_target) (Fin 0) (Fin 0) (Fin 0) (Fin 0) (Fin 0) (Fin 0)
     record_go [] = Some (Inr (2, []))"
  by (simp add: query_eval record_go_def polygon_target_def)

lemma eval_target:
  "Intersects geo_sample col_ab 0 1 (Some polygon_target) (Fin 0) (Fin 0) (Fin 0) (Fin 0) (Fin 0) (Fin 0)
     record_go [] = Some (Inr (0, [''a'', ''b'']))"
  by (simp add: query_eval record_go_def polygon_target_def)


theorem sparse_tiles_use_cursor_witness:
  "(0::nat) < 1 \<and>
   query_bbox None (Fin 0) (Fin 0) (Fin 2) (Fin 2) (Fin 0) (Fin 0) = Inr (rect_at 0 0 2 2) \<and>
   Intersects_bboxes (rect_at 0 0 2 2) 1 (Fin 0) (Fin 0) = Some tiles4 \<and>
   Nearby geo_sample col_ab 1 1 (Fin 1) (Fin 1) (Fin 1) (Fin 0) (Fin 0) record_go [] =
     (0, fold (\<lambda>tile. tile_visits geo_sample col_ab 1 (with_Z tile (Fin 0) (Fin 0))
                        (\<lambda>ob. g_Nearby geo_sample ob \<lparr>X = Fin 1, Y = Fin 1, Z = Fin 0\<rparr> (Fin 1)) record_go)
           (g_Sparse geo_sample (g_BBoxesFromCenter geo_sample (Fin 1) (Fin 1) (Fin 1)) 1) []) \<and>
   Nearby geo_sample col_ab 1 1 (Fin 1) (Fin 1) (Fin 1) (Fin 0) (Fin 0) record_go [] = (0, [''b'']) \<and>
   Within geo_sample col_ab 1 1 None (Fin 0) (Fin 0) (Fin 2) (Fin 2) (Fin 0) (Fin 0) record_go [] =
     Inr (0, fold (\<lambda>tile s. tile_visits geo_sample col_ab 1 tile
                     (\<lambda>ob. g_WithinBBox geo_sample ob tile) record_go s)
               (g_Sparse geo_sample (rect_at 0 0 2 2) 1) []) \<and>
   Within geo_sample col_ab 1 1 None (Fin 0) (Fin 0) (Fin 2) (Fin 2) (Fin 0) (Fin 0) record_go [] =
     Inr (0, [''b'']) \<and>
   Intersects geo_sample col_ab 1 1 None (Fin 0) (Fin 0) (Fin 2) (Fin 2) (Fin 0) (Fin 0) record_go [] =
     Some (Inr (0, fold (\<lambda>tile s. tile_visits geo_sample col_ab 1 tile
                           (\<lambda>ob. g_IntersectsBBox geo_sample ob tile) record_go s) tiles4 [])) \<and>
   fold (\<lambda>tile s. tile_visits geo_sample col_ab 1 tile
           (\<lambda>ob. g_IntersectsBBox geo_sample ob tile) record_go s) tiles4 [] = [] \<and>
   (0::nat) < 64 \<and>
   Intersects_bboxes (rect_at 0 0 2 2) 64 (Fin 0) (Fin 0) =
     Some [\<lparr>MinP = \<lparr>X = Fin 0, Y = Fin 0, Z = Fin 0\<rparr>, MaxP = \<lparr>X = PInf, Y = PInf, Z = Fin 0\<rparr>\<rparr>] \<and>
   Intersects geo_sample col_ab 1 64 None (Fin 0) (Fin 0) (Fin 2) (Fin 2) (Fin 0) (Fin 0) record_go [] =
     Some (Inr (0, fold (\<lambda>tile s. tile_visits geo_sample col_ab 1 tile
                           (\<lambda>ob. g_IntersectsBBox geo_sample ob tile) record_go s)
                      [\<lparr>MinP = \<lparr>X = Fin 0, Y = Fin 0, Z = Fin 0\<rparr>, MaxP = \<lparr>X = PInf, Y = PInf, Z = Fin 0\<rparr>\<rparr>] [])) \<and>
   Intersects geo_sample col_ab 1 64 None (Fin 0) (Fin 0) (Fin 2) (Fin 2) (Fin 0) (Fin 0) record_go [] =
     Some (Inr (0, [''b'']))"
proof -
  let ?far = "\<lparr>MinP = \<lparr>X = Fin 0, Y = Fin 0, Z = Fin 0\<rparr>, MaxP = \<lparr>X = PInf, Y = PInf, Z = Fin 0\<rparr>\<rparr>"
  have h1: "(0::nat) < 1" by simp
  have h2: "query_bbox None (Fin 0) (Fin 0) (Fin 2) (Fin 2) (Fin 0) (Fin 0) = Inr (rect_at 0 0 2 2)"
    by (simp add: query_bbox_def rect_at_def)
  note h3 = tiles4_eq
  have h4: "(0::nat) < 64" by simp
  note h5 = tiles_sparse_64
  note t1 = sparse_tiles_use_cursor [OF h1, of geo_sample col_ab 1 "Fin 1" "Fin 1" "Fin 1" "Fin 0" "Fin 0"
      record_go "[]" None "Fin 0" "Fin 0" "Fin 2" "Fin 2"]
  note t64 = sparse_tiles_use_cursor [OF h4, of geo_sample col_ab 1 "Fin 1" "Fin 1" "Fin 1" "Fin 0" "Fin 0"
      record_go "[]" None "Fin 0" "Fin 0" "Fin 2" "Fin 2"]
  from t1 have n: "Nearby geo_sample col_ab 1 1 (Fin 1) (Fin 1) (Fin 1) (Fin 0) (Fin 0) record_go [] =
     (0, fold (\<lambda>tile. tile_visits geo_sample col_ab 1 (with_Z tile (Fin 0) (Fin 0))
                        (\<lambda>ob. g_Nearby geo_sample ob \<lparr>X = Fin 1, Y = Fin 1, Z = Fin 0\<rparr> (Fin 1)) record_go)
           (g_Sparse geo_sample (g_BBoxesFromCenter geo_sample (Fin 1) (Fin 1) (Fin 1)) 1) [])"
    by blast
  from t1 h2 have w: "Within geo_sample col_ab 1 1 None (Fin 0) (Fin 0) (Fin 2) (Fin 2) (Fin 0) (Fin 0)
        record_go [] =
     Inr (0, fold (\<lambda>tile s. tile_visits geo_sample col_ab 1 tile
                     (\<lambda>ob. g_WithinBBox geo_sample ob tile) record_go s)
               (g_Sparse geo_sample (rect_at 0 0 2 2) 1) [])"
    by simp
  from t1 h2 h3 have i: "Intersects geo_sample col_ab 1 1 None (Fin 0) (Fin 0) (Fin 2) (Fin 2) (Fin 0) (Fin 0)
        record_go [] =
     Some (Inr (0, fold (\<lambda>tile s. tile_visits geo_sample col_ab 1 tile
                           (\<lambda>ob. g_IntersectsBBox geo_sample ob tile) record_go s) tiles4 []))"
    by simp
  with eval_go_cursor1 have f: "fold (\<lambda>tile s. tile_visits geo_sample col_ab 1 tile
           (\<lambda>ob. g_IntersectsBBox geo_sample ob tile) record_go s) tiles4 [] = []" by simp
  from t64 h2 h5 have j: "Intersects geo_sample col_ab 1 64 None (Fin 0) (Fin 0) (Fin 2) (Fin 2) (Fin 0) (Fin 0)
        record_go [] =
     Some (Inr (0, fold (\<lambda>tile s. tile_visits geo_sample col_ab 1 tile
                           (\<lambda>ob. g_IntersectsBBox geo_sample ob tile) record_go s) [?far] []))"
    by simp
  from h1 h2 h3 n eval_nearby_cursor1 w eval_within_cursor1 i f h4 h5 j eval_go_sparse_64
  show ?thesis by blast
qed

text \<open>
  With cursor 1 the first item of every tile is skipped: the two items, each the only one
  of its tile, are visited with cursor 0 and are not with cursor 1.
\<close>

theorem sparse_cursor_zero_counterexample:
  "Intersects geo_sample col_ab 1 1 None (Fin 0) (Fin 0) (Fin 2) (Fin 2) (Fin 0) (Fin 0) record_go []
     = Some (Inr (0, [])) \<and>
   Intersects geo_sample col_ab 0 1 None (Fin 0) (Fin 0) (Fin 2) (Fin 2) (Fin 0) (Fin 0) record_go []
     = Some (Inr (0, [''a'', ''b'']))"
  using eval_go_cursor1 eval_go_cursor0 by simp

text \<open>
  C4 at a sparse \<^verbatim>\<open>Intersects\<close> with a target: neither item intersects the target, and
  both are passed to the callback, by the second search of the tile, which refines with
  \<^verbatim>\<open>IntersectsBBox\<close> of the tile. Without sparse the same call visits no item.
\<close>

theorem sparse_target_visits_unrefined:
  "\<not> g_Intersects geo_sample (point_at (1/2) (1/2)) polygon_target \<and>
   \<not> g_Intersects geo_sample (point_at (3/2) (1/2)) polygon_target \<and>
   Intersects geo_sample col_ab 0 1 (Some polygon_target) (Fin 0) (Fin 0) (Fin 0) (Fin 0) (Fin 0) (Fin 0)
     record_go [] = Some (Inr (0, [''a'', ''b''])) \<and>
   Intersects geo_sample col_ab 0 0 (Some polygon_target) (Fin 0) (Fin 0) (Fin 0) (Fin 0) (Fin 0) (Fin 0)
     record_go [] = Some (Inr (2, []))"
  using eval_target eval_target_plain by (simp add: geo_sample_def)








lemma remove_ok:
  assumes "coll_inv sz c"
  shows "\<exists>c1 old. remove sz c k = Inr (c1, old)"
proof (cases "btree_Get (items c) k")
  case None
  then show ?thesis by (simp add: remove_def)
next
  case (Some item)
  then have "item \<in> set (items c)" by (simp add: btree_Get_Some)
  with assms have "wf_item sz item" by (simp add: coll_inv_def counters_ok_def list_all_iff)
  then obtain pc w where "PositionCount (item_object item) = Inr pc"
    "Weight sz (item_object item) = Inr w" using wf_itemD by blast
  from remove_found [OF Some this(2,1)] show ?thesis by blast
qed

lemma insert_item_ok:
  assumes "Weight sz obj = Inr w" and "PositionCount obj = Inr pc"
  shows "\<exists>c' it. insert_item sz c k obj = Inr (c', it)"
proof -
  from PositionCount_CalculatedBBox [OF assms(2)] obtain bb where "CalculatedBBox obj = Inr bb"
    by blast
  with assms show ?thesis by (simp add: insert_item_def Let_def)
qed

lemma routed_absent:
  assumes "routed c" and "k \<notin> item_id ` set (items c)"
  shows "k \<notin> set (index c) \<and> k \<notin> set (values_tree c)"
  using assms by (force simp: routed_def kinds_def)

lemma ReplaceOrInsert_nil_geometry:
  assumes inv: "coll_inv sz c"
  shows "\<exists>c'. ReplaceOrInsert sz c k (Feature None b p) flds vals = Inl (NilDereference, c') \<and>
              k \<notin> set (values_tree c') \<and> (k \<in> set (index c') \<longleftrightarrow> b \<noteq> None)"
proof -
  from remove_ok [OF inv] obtain c1 old where rm: "remove sz c k = Inr (c1, old)" by blast
  from remove_inv [OF inv rm] have inv1: "coll_inv sz c1" and fresh: "k \<notin> item_id ` set (items c1)"
    by simp_all
  from inv1 have "routed c1" by (simp add: coll_inv_def)
  from routed_absent [OF this fresh] have nix: "k \<notin> set (index c1)" and nvt: "k \<notin> set (values_tree c1)"
    by simp_all
  show ?thesis
  proof (cases b)
    case None
    then have "ReplaceOrInsert sz c k (Feature None b p) flds vals = Inl (NilDereference, c1)"
      by (simp add: ReplaceOrInsert_def rm insert_item_def Let_def)
    with nix nvt None show ?thesis by simp
  next
    case (Some bb)
    let ?c2 = "c1\<lparr>index := index c1 @ [k], objects := objects c1 + 1,
                  items := btree_ReplaceOrInsert (items c1)
                             \<lparr>item_id = k, item_object = Feature None b p, item_fields = []\<rparr>\<rparr>"
    from Some have "ReplaceOrInsert sz c k (Feature None b p) flds vals = Inl (NilDereference, ?c2)"
      by (simp add: ReplaceOrInsert_def rm insert_item_def Let_def)
    with nvt Some show ?thesis by simp
  qed
qed

text \<open>
  C9 (as the code has it): \<^verbatim>\<open>ReplaceOrInsert\<close> routes the object by its \<^verbatim>\<open>IsGeometry()\<close>:
  when the call returns, an object that reports true is in the spatial index and not in the
  value-ordered tree, and one that reports false is in the value-ordered tree and not in
  the spatial index. A \<open>Feature\<close> always reports true, so a stored \<open>Feature\<close> is in the
  spatial index. A \<open>Feature\<close> whose geometry is nil is not stored: the call panics, the id
  is not in the value-ordered tree, and it is in the spatial index exactly when the
  \<open>Feature\<close> has a bounding box.
\<close>

theorem routing_by_IsGeometry:
  assumes re: "reachable sz c"
  shows "(\<forall>c' res. ReplaceOrInsert sz c k obj flds vals = Inr (c', res) \<longrightarrow>
            (IsGeometry obj \<longrightarrow> k \<in> set (index c') \<and> k \<notin> set (values_tree c')) \<and>
            (\<not> IsGeometry obj \<longrightarrow> k \<in> set (values_tree c') \<and> k \<notin> set (index c')) \<and>
            (\<forall>g b p. obj = Feature g b p \<longrightarrow> k \<in> set (index c') \<and> k \<notin> set (values_tree c'))) \<and>
         (\<forall>b p. obj = Feature None b p \<longrightarrow>
            (\<exists>c'. ReplaceOrInsert sz c k obj flds vals = Inl (NilDereference, c') \<and>
                  k \<notin> set (values_tree c') \<and> (k \<in> set (index c') \<longleftrightarrow> b \<noteq> None)))"
proof -
  have stored: "(IsGeometry obj \<longrightarrow> k \<in> set (index c') \<and> k \<notin> set (values_tree c')) \<and>
            (\<not> IsGeometry obj \<longrightarrow> k \<in> set (values_tree c') \<and> k \<notin> set (index c')) \<and>
            (\<forall>g b p. obj = Feature g b p \<longrightarrow> k \<in> set (index c') \<and> k \<notin> set (values_tree c'))"
    if r: "ReplaceOrInsert sz c k obj flds vals = Inr (c', res)" for c' res
  proof -
  from ReplaceOrInsert_inv [OF reachable_inv [OF re] r] obtain it
    where inv: "coll_inv sz c'" and g: "btree_Get (items c') k = Some it"
      and ob: "item_object it = obj" by blast
  from g have idk: "item_id it = k" and mem: "it \<in> set (items c')" by (simp_all add: btree_Get_Some)
  from inv have dist: "distinct (map item_id (items c'))" and rt: "routed c'"
    by (simp_all add: coll_inv_def counters_ok_def)
  have kind: "(k, IsGeometry obj) \<in> set (kinds (items c'))"
    using mem idk ob by (force simp: kinds_def)
  have uniq: "flag = IsGeometry obj" if "(k, flag) \<in> set (kinds (items c'))" for flag
  proof -
    from that obtain it2 where "it2 \<in> set (items c')" "item_id it2 = k"
      "flag = IsGeometry (item_object it2)" by (auto simp: kinds_def)
    with same_id_same_item [OF dist this(1) mem] idk ob show ?thesis by simp
  qed
  have ix: "set (index c') = {k. (k, True) \<in> set (kinds (items c'))}"
    and vt: "set (values_tree c') = {k. (k, False) \<in> set (kinds (items c'))}"
    using rt by (simp_all add: routed_def)
  have geo: "k \<in> set (index c') \<and> k \<notin> set (values_tree c')" if "IsGeometry obj"
  proof -
    from kind that have "k \<in> set (index c')" by (simp add: ix)
    moreover have "k \<notin> set (values_tree c')" using uniq [of False] that by (auto simp: vt)
    ultimately show ?thesis by simp
  qed
  have nongeo: "k \<in> set (values_tree c') \<and> k \<notin> set (index c')" if "\<not> IsGeometry obj"
  proof -
    from kind that have "k \<in> set (values_tree c')" by (simp add: vt)
    moreover have "k \<notin> set (index c')" using uniq [of True] that by (auto simp: ix)
    ultimately show ?thesis by simp
  qed
    have feat: "k \<in> set (index c') \<and> k \<notin> set (values_tree c')" if "obj = Feature g b p" for g b p
      using geo that by simp
    from geo nongeo feat show ?thesis by blast
  qed
  have nil: "\<exists>c'. ReplaceOrInsert sz c k obj flds vals = Inl (NilDereference, c') \<and>
                  k \<notin> set (values_tree c') \<and> (k \<in> set (index c') \<longleftrightarrow> b \<noteq> None)"
    if "obj = Feature None b p" for b p
    using ReplaceOrInsert_nil_geometry [OF reachable_inv [OF re], of k b p flds vals] that by simp
  from stored nil show ?thesis by blast
qed

theorem routing_by_IsGeometry_witness:
  "reachable 24 New \<and>
   ReplaceOrInsert 24 New ''a'' (point_at (1/2) (1/2)) None [] = Inr (col_a, None, (\<lambda>cap. []), []) \<and>
   IsGeometry (point_at (1/2) (1/2)) \<and> ''a'' \<in> set (index col_a) \<and> ''a'' \<notin> set (values_tree col_a) \<and>
   \<not> IsGeometry (Other False 0 5 unit_bbox ''hello'') \<and>
   (\<exists>c' res. ReplaceOrInsert 24 New ''s'' (Other False 0 5 unit_bbox ''hello'') None [] = Inr (c', res) \<and>
      ''s'' \<in> set (values_tree c') \<and> ''s'' \<notin> set (index c')) \<and>
   (\<exists>c'. ReplaceOrInsert 24 New ''f'' feature_no_geometry None [] = Inl (NilDereference, c') \<and>
      ''f'' \<notin> set (values_tree c') \<and> ''f'' \<in> set (index c'))"
proof -
  have r: "reachable 24 New" by (rule reach_New)
  have g: "IsGeometry (point_at (1/2) (1/2))" by (simp add: point_at_def)
  from routing_by_IsGeometry [OF r, where k = "''a''" and obj = "point_at (1/2) (1/2)"
      and flds = None and vals = "[]"] roi_a g
  have a: "''a'' \<in> set (index col_a) \<and> ''a'' \<notin> set (values_tree col_a)" by blast
  have ng: "\<not> IsGeometry (Other False 0 5 unit_bbox ''hello'')" by simp
  obtain c1 res where s: "ReplaceOrInsert 24 New ''s'' (Other False 0 5 unit_bbox ''hello'') None []
      = Inr (c1, res)"
    by (simp add: ReplaceOrInsert_def remove_def insert_item_def New_def btree_Get_def btree_Delete_def
        btree_ReplaceOrInsert_def Let_def)
  from routing_by_IsGeometry [OF r, where k = "''s''" and obj = "Other False 0 5 unit_bbox ''hello''"
      and flds = None and vals = "[]"] s ng
  have b: "''s'' \<in> set (values_tree c1) \<and> ''s'' \<notin> set (index c1)" by blast
  from routing_by_IsGeometry [OF r, where k = "''f''" and obj = feature_no_geometry
      and flds = None and vals = "[]"]
  have f: "\<exists>c'. ReplaceOrInsert 24 New ''f'' feature_no_geometry None [] = Inl (NilDereference, c') \<and>
      ''f'' \<notin> set (values_tree c') \<and> ''f'' \<in> set (index c')"
    by (simp add: feature_no_geometry_def)
  from r roi_a g a ng s b f show ?thesis by blast
qed

text \<open>
  A \<open>Feature\<close> whose geometry is nil is not routed to the value-ordered tree. With a
  bounding box it is put into the spatial index and the id-ordered tree, and then
  \<^verbatim>\<open>Weight()\<close> dereferences the nil geometry; without one, \<^verbatim>\<open>CalculatedBBox()\<close> does so when
  the spatial index asks for the rectangle of the item, before anything is changed.
\<close>

theorem feature_without_geometry_counterexample:
  "IsGeometry feature_no_geometry \<and>
   ReplaceOrInsert 24 New ''f'' feature_no_geometry None [] =
     Inl (NilDereference,
          New\<lparr>items := [\<lparr>item_id = ''f'', item_object = feature_no_geometry, item_fields = []\<rparr>],
              index := [''f''], objects := 1\<rparr>) \<and>
   IsGeometry (Feature None None []) \<and>
   ReplaceOrInsert 24 New ''f'' (Feature None None []) None [] = Inl (NilDereference, New)"
  by (simp add: ReplaceOrInsert_def remove_def insert_item_def New_def btree_Get_def btree_Delete_def
      btree_ReplaceOrInsert_def feature_no_geometry_def Let_def)

lemma btree_Get_Delete_other: "k' \<noteq> k \<Longrightarrow> btree_Get (btree_Delete t k) k' = btree_Get t k'"
  unfolding btree_Get_def btree_Delete_def by (induction t) auto

lemma btree_Get_insort_other:
  "item_id x \<noteq> k' \<Longrightarrow> btree_Get (insort_key item_id x t) k' = btree_Get t k'"
  unfolding btree_Get_def by (induction t) auto

lemma find_map_other:
  "item_id new \<noteq> k' \<Longrightarrow>
   find (\<lambda>it. item_id it = k') (map (\<lambda>it. if item_id it = item_id new then new else it) t)
     = find (\<lambda>it. item_id it = k') t"
  by (induction t) auto

lemma btree_Get_put_other:
  "item_id new \<noteq> k' \<Longrightarrow> btree_Get (items (put_item c new)) k' = btree_Get (items c) k'"
  by (simp add: btree_Get_def put_item_def find_map_other)

lemma remove_items: "remove sz c k = Inr (c1, old) \<Longrightarrow> items c1 = btree_Delete (items c) k"
proof (cases "btree_Get (items c) k")
  case None
  assume "remove sz c k = Inr (c1, old)"
  with None have "c1 = c" by (simp add: remove_def)
  moreover from None have "btree_Delete (items c) k = items c"
    by (simp add: btree_Delete_def filter_absent btree_Get_None)
  ultimately show ?thesis by simp
next
  case (Some item)
  assume "remove sz c k = Inr (c1, old)"
  with Some show ?thesis
    by (auto simp: remove_def Let_def split: if_splits sum.splits)
qed

lemma ReplaceOrInsert_nil_fields:
  assumes inv: "coll_inv sz c" and w: "Weight sz obj = Inr w" and pc: "PositionCount obj = Inr pc"
  shows "\<exists>c' res. ReplaceOrInsert sz c k obj None vals = Inr (c', res) \<and> coll_inv sz c' \<and>
           fieldMap c' = fieldMap c \<and>
           (\<exists>fs. Get c' k = (Some obj, fs, True) \<and> (vals \<noteq> [] \<longrightarrow> fs = vals)) \<and>
           (\<forall>k'. k' \<noteq> k \<longrightarrow> Get c' k' = Get c k')"
proof -
  from remove_ok [OF inv] obtain c1 old where rm: "remove sz c k = Inr (c1, old)" by blast
  from insert_item_ok [OF w pc] obtain c2 nitem where ins: "insert_item sz c1 k obj = Inr (c2, nitem)"
    by blast
  from remove_inv [OF inv rm] have inv1: "coll_inv sz c1" and fresh: "k \<notin> item_id ` set (items c1)"
    by simp_all
  from insert_inv [OF inv1 fresh ins] have g2: "btree_Get (items c2) k = Some nitem"
    and nit: "nitem = \<lparr>item_id = k, item_object = obj, item_fields = []\<rparr>" by simp_all
  from insert_item_Inr [OF ins] have it2: "items c2 = btree_ReplaceOrInsert (items c1) nitem" by auto
  have del: "btree_Delete (items c1) k = items c1"
    using fresh by (simp add: btree_Delete_def filter_absent)
  have other2: "btree_Get (items c2) k' = btree_Get (items c) k'" if "k' \<noteq> k" for k'
    using that by (simp add: it2 btree_ReplaceOrInsert_def nit del btree_Get_insort_other
        remove_items [OF rm] btree_Get_Delete_other)
  define n1 where "n1 = (case old of Some oldItem \<Rightarrow> nitem\<lparr>item_fields := item_fields oldItem\<rparr> | None \<Rightarrow> nitem)"
  define c3 where "c3 = (case old of Some oldItem \<Rightarrow>
       put_item (c2\<lparr>weight := weight c2 + int (length (item_fields n1)) * 8\<rparr>) n1 | None \<Rightarrow> c2)"
  have id1: "item_id n1 = k" and ob1: "item_object n1 = obj"
    by (simp_all add: n1_def nit split: option.splits)
  have g3: "btree_Get (items c3) k = Some n1"
  proof (cases old)
    case None
    then show ?thesis using g2 by (simp add: c3_def n1_def)
  next
    case (Some oldItem)
    then show ?thesis unfolding c3_def
      by (simp add: btree_Get_put_item [OF g2 id1])
  qed
  have other3: "btree_Get (items c3) k' = btree_Get (items c) k'" if "k' \<noteq> k" for k'
    using that other2 [OF that] id1 by (cases old) (simp_all add: c3_def btree_Get_put_other)
  let ?n2 = "n1\<lparr>item_fields := vals\<rparr>"
  let ?c5 = "c3\<lparr>weight := weight c3 - int (length (item_fields n1)) * 8 + int (length vals) * 8\<rparr>"
  obtain c' res where r: "ReplaceOrInsert sz c k obj None vals = Inr (c', res)"
    and c': "c' = (if vals \<noteq> [] then put_item ?c5 ?n2 else c3)"
    by (cases old; cases "vals = []")
      (simp_all add: ReplaceOrInsert_def rm ins Let_def c3_def n1_def)
  from ReplaceOrInsert_inv [OF inv r] have inv': "coll_inv sz c'" by simp
  from ReplaceOrInsert_fieldMap [OF r] have fm: "fieldMap c' = fieldMap c" by simp
  have gk: "\<exists>fs. Get c' k = (Some obj, fs, True) \<and> (vals \<noteq> [] \<longrightarrow> fs = vals)"
  proof (cases "vals = []")
    case True
    then show ?thesis using g3 c' ob1 by (simp add: Get_def)
  next
    case False
    have "btree_Get (items (put_item ?c5 ?n2)) k = Some ?n2"
      by (rule btree_Get_put_item [OF g3]) (simp_all add: id1)
    then show ?thesis using False c' ob1 by (simp add: Get_def)
  qed
  have go: "Get c' k' = Get c k'" if "k' \<noteq> k" for k'
  proof (cases "vals = []")
    case True
    then show ?thesis using other3 [OF that] c' by (simp add: Get_def)
  next
    case False
    have "btree_Get (items (put_item ?c5 ?n2)) k' = btree_Get (items ?c5) k'"
      by (rule btree_Get_put_other) (use that id1 in simp)
    then show ?thesis using False other3 [OF that] c' by (simp add: Get_def)
  qed
  from r inv' fm gk go show ?thesis by blast
qed

lemma restore_rows_nil_fields:
  "coll_inv sz c \<Longrightarrow>
   \<forall>row \<in> set rows. \<exists>obj w pc. oa (Row_Obj row) = Inr obj \<and> Weight sz obj = Inr w \<and> PositionCount obj = Inr pc \<Longrightarrow>
   \<exists>c'. restore_rows oa sz c rows None = Inr (c', None) \<and> fieldMap c' = fieldMap c \<and>
      (\<forall>k. k \<notin> Row_Id ` set rows \<longrightarrow> Get c' k = Get c k) \<and>
      (\<forall>pre row post. rows = pre @ row # post \<and> Row_Id row \<notin> Row_Id ` set post \<longrightarrow>
         (\<exists>obj fs. oa (Row_Obj row) = Inr obj \<and> Get c' (Row_Id row) = (Some obj, fs, True) \<and>
                   (Row_Values row \<noteq> [] \<longrightarrow> fs = Row_Values row)))"
proof (induction rows arbitrary: c)
  case Nil
  show ?case by simp
next
  case (Cons r0 rest)
  from Cons.prems(2) obtain obj w pc where oa: "oa (Row_Obj r0) = Inr obj"
    and w: "Weight sz obj = Inr w" and pc: "PositionCount obj = Inr pc" by auto
  from ReplaceOrInsert_nil_fields [OF Cons.prems(1) w pc, of "Row_Id r0" "Row_Values r0"]
  obtain c1 res fs0 where roi: "ReplaceOrInsert sz c (Row_Id r0) obj None (Row_Values r0) = Inr (c1, res)"
    and inv1: "coll_inv sz c1" and fm1: "fieldMap c1 = fieldMap c"
    and g0: "Get c1 (Row_Id r0) = (Some obj, fs0, True)"
    and v0: "Row_Values r0 \<noteq> [] \<longrightarrow> fs0 = Row_Values r0"
    and o1: "\<And>k'. k' \<noteq> Row_Id r0 \<Longrightarrow> Get c1 k' = Get c k'" by blast
  from Cons.prems(2) have rows': "\<forall>row \<in> set rest. \<exists>obj w pc. oa (Row_Obj row) = Inr obj \<and>
      Weight sz obj = Inr w \<and> PositionCount obj = Inr pc" by simp
  from Cons.IH [OF inv1 rows'] obtain c' where rr: "restore_rows oa sz c1 rest None = Inr (c', None)"
    and fm': "fieldMap c' = fieldMap c1"
    and oth: "\<And>k. k \<notin> Row_Id ` set rest \<Longrightarrow> Get c' k = Get c1 k"
    and last: "\<And>pre row post. rest = pre @ row # post \<Longrightarrow> Row_Id row \<notin> Row_Id ` set post \<Longrightarrow>
         \<exists>obj fs. oa (Row_Obj row) = Inr obj \<and> Get c' (Row_Id row) = (Some obj, fs, True) \<and>
                   (Row_Values row \<noteq> [] \<longrightarrow> fs = Row_Values row)" by blast
  have 1: "restore_rows oa sz c (r0 # rest) None = Inr (c', None)" using oa roi rr by simp
  have 2: "fieldMap c' = fieldMap c" using fm' fm1 by simp
  have 3: "Get c' k = Get c k" if "k \<notin> Row_Id ` set (r0 # rest)" for k
    using that oth [of k] o1 [of k] by simp
  have 4: "\<exists>obj fs. oa (Row_Obj row) = Inr obj \<and> Get c' (Row_Id row) = (Some obj, fs, True) \<and>
                   (Row_Values row \<noteq> [] \<longrightarrow> fs = Row_Values row)"
    if d: "r0 # rest = pre @ row # post" and l: "Row_Id row \<notin> Row_Id ` set post" for pre row post
  proof (cases pre)
    case Nil
    with d have "row = r0" "post = rest" by simp_all
    with l oth [of "Row_Id r0"] g0 v0 oa show ?thesis by simp
  next
    case (Cons p pre')
    with d have "rest = pre' @ row # post" by simp
    from last [OF this l] show ?thesis .
  qed
  from 1 2 3 4 show ?case by blast
qed

text \<open>
  C6 (as the code has it): decode returns an error for a nil input and for every input that
  \<^verbatim>\<open>json.Unmarshal\<close> rejects (as it does the empty document), and leaves the collection as
  it is. A document that parses and has no \<^verbatim>\<open>fields\<close> member is decoded without error
  when the object of every row parses: the registry is left as it is, the items whose id is
  in no row are left as they are, and the item of every id of the document holds the object
  of the last row with that id and, when the values of this row are not empty, exactly
  these values as its field vector.
\<close>

theorem UnmarshalJSON_error_cases:
  "UnmarshalJSON ju oa sz c None = Inr (c, Some NoBytesInput) \<and>
   (\<forall>e. ju bytes \<lparr>Rows = [], Fields = None\<rparr> = Inl e \<longrightarrow>
        UnmarshalJSON ju oa sz c (Some bytes) = Inr (c, Some e)) \<and>
   (\<forall>p. ju bytes \<lparr>Rows = [], Fields = None\<rparr> = Inr p \<and> Fields p = None \<and> reachable sz c \<and>
        (\<forall>row \<in> set (Rows p). \<exists>obj w pc. oa (Row_Obj row) = Inr obj \<and>
             Weight sz obj = Inr w \<and> PositionCount obj = Inr pc) \<longrightarrow>
        (\<exists>c'. UnmarshalJSON ju oa sz c (Some bytes) = Inr (c', None) \<and>
              fieldMap c' = fieldMap c \<and>
              (\<forall>k. k \<notin> Row_Id ` set (Rows p) \<longrightarrow> Get c' k = Get c k) \<and>
              (\<forall>pre row post. Rows p = pre @ row # post \<and> Row_Id row \<notin> Row_Id ` set post \<longrightarrow>
                 (\<exists>obj fs. oa (Row_Obj row) = Inr obj \<and>
                           Get c' (Row_Id row) = (Some obj, fs, True) \<and>
                           (Row_Values row \<noteq> [] \<longrightarrow> fs = Row_Values row)))))"
proof -
  have 1: "UnmarshalJSON ju oa sz c None = Inr (c, Some NoBytesInput)"
    by (simp add: UnmarshalJSON_def)
  have 2: "UnmarshalJSON ju oa sz c (Some bytes) = Inr (c, Some e)"
    if "ju bytes \<lparr>Rows = [], Fields = None\<rparr> = Inl e" for e
    using that by (simp add: UnmarshalJSON_def)
  have 3: "\<exists>c'. UnmarshalJSON ju oa sz c (Some bytes) = Inr (c', None) \<and>
              fieldMap c' = fieldMap c \<and>
              (\<forall>k. k \<notin> Row_Id ` set (Rows p) \<longrightarrow> Get c' k = Get c k) \<and>
              (\<forall>pre row post. Rows p = pre @ row # post \<and> Row_Id row \<notin> Row_Id ` set post \<longrightarrow>
                 (\<exists>obj fs. oa (Row_Obj row) = Inr obj \<and>
                           Get c' (Row_Id row) = (Some obj, fs, True) \<and>
                           (Row_Values row \<noteq> [] \<longrightarrow> fs = Row_Values row)))"
    if a: "ju bytes \<lparr>Rows = [], Fields = None\<rparr> = Inr p \<and> Fields p = None \<and> reachable sz c \<and>
        (\<forall>row \<in> set (Rows p). \<exists>obj w pc. oa (Row_Obj row) = Inr obj \<and>
             Weight sz obj = Inr w \<and> PositionCount obj = Inr pc)" for p
  proof -
    from a have inv: "coll_inv sz c" by (simp add: reachable_inv)
    from a have rows: "\<forall>row \<in> set (Rows p). \<exists>obj w pc. oa (Row_Obj row) = Inr obj \<and>
             Weight sz obj = Inr w \<and> PositionCount obj = Inr pc" by simp
    from a have u: "UnmarshalJSON ju oa sz c (Some bytes) = restore_rows oa sz c (Rows p) None"
      by (simp add: UnmarshalJSON_def)
    from restore_rows_nil_fields [OF inv rows] show ?thesis unfolding u .
  qed
  from 1 2 3 show ?thesis by blast
qed

lemma decode_doc_no_fields:
  "UnmarshalJSON json_Unmarshal_sample ObjectAuto_sample 24 New (Some doc_no_fields) = Inr (col_12, None)"
  by (simp add: UnmarshalJSON_def json_Unmarshal_sample_def ObjectAuto_sample_def
      ReplaceOrInsert_def remove_def insert_item_def New_def btree_Get_def btree_Delete_def
      btree_ReplaceOrInsert_def point_at_def col_12_def col_a_def put_item_def Let_def)

lemma decode_empty_doc:
  "UnmarshalJSON json_Unmarshal_sample ObjectAuto_sample 24 New (Some [])
     = Inr (New, Some (DecodeError ''unexpected end of JSON input''))"
  by (simp add: UnmarshalJSON_def json_Unmarshal_sample_def doc_no_fields_def)

theorem UnmarshalJSON_error_cases_witness:
  "json_Unmarshal_sample [] \<lparr>Rows = [], Fields = None\<rparr> = Inl (DecodeError ''unexpected end of JSON input'') \<and>
   UnmarshalJSON json_Unmarshal_sample ObjectAuto_sample 24 New (Some [])
     = Inr (New, Some (DecodeError ''unexpected end of JSON input'')) \<and>
   json_Unmarshal_sample doc_no_fields \<lparr>Rows = [], Fields = None\<rparr>
     = Inr \<lparr>Rows = [\<lparr>Row_Id = ''a'', Row_Obj = ''point'', Row_Values = [1, 2]\<rparr>], Fields = None\<rparr> \<and>
   reachable 24 New \<and>
   ObjectAuto_sample ''point'' = Inr (point_at (1/2) (1/2)) \<and>
   Weight 24 (point_at (1/2) (1/2)) = Inr 24 \<and> PositionCount (point_at (1/2) (1/2)) = Inr 1 \<and>
   (\<exists>c'. UnmarshalJSON json_Unmarshal_sample ObjectAuto_sample 24 New (Some doc_no_fields) = Inr (c', None) \<and>
         fieldMap c' = [] \<and>
         Get c' ''b'' = (None, [], False) \<and>
         Get c' ''a'' = (Some (point_at (1/2) (1/2)), [1, 2], True))"
proof -
  let ?row = "\<lparr>Row_Id = ''a'', Row_Obj = ''point'', Row_Values = [1, 2]\<rparr>"
  have e: "json_Unmarshal_sample [] \<lparr>Rows = [], Fields = None\<rparr>
      = Inl (DecodeError ''unexpected end of JSON input'')"
    by (simp add: json_Unmarshal_sample_def doc_no_fields_def)
  have p: "json_Unmarshal_sample doc_no_fields \<lparr>Rows = [], Fields = None\<rparr>
     = Inr \<lparr>Rows = [?row], Fields = None\<rparr>"
    by (simp add: json_Unmarshal_sample_def)
  have o: "ObjectAuto_sample ''point'' = Inr (point_at (1/2) (1/2))"
    by (simp add: ObjectAuto_sample_def)
  have w: "Weight 24 (point_at (1/2) (1/2)) = Inr 24" "PositionCount (point_at (1/2) (1/2)) = Inr 1"
    by (simp_all add: point_at_def)
  have r: "reachable 24 New" by (rule reach_New)
  have gb: "Get New ''b'' = (None, [], False)" by (simp add: Get_def New_def btree_Get_def)
  from UnmarshalJSON_error_cases [of json_Unmarshal_sample ObjectAuto_sample 24 New "[]"] e
  have 1: "UnmarshalJSON json_Unmarshal_sample ObjectAuto_sample 24 New (Some [])
     = Inr (New, Some (DecodeError ''unexpected end of JSON input''))" by simp
  have rows: "\<forall>row \<in> set (Rows \<lparr>Rows = [?row], Fields = None\<rparr>).
       \<exists>obj w pc. ObjectAuto_sample (Row_Obj row) = Inr obj \<and>
             Weight 24 obj = Inr w \<and> PositionCount obj = Inr pc"
    using o w by simp
  from UnmarshalJSON_error_cases [of json_Unmarshal_sample ObjectAuto_sample 24 New doc_no_fields]
    p r rows
  obtain c' where u: "UnmarshalJSON json_Unmarshal_sample ObjectAuto_sample 24 New (Some doc_no_fields)
      = Inr (c', None)"
    and fm: "fieldMap c' = fieldMap New"
    and oth: "\<forall>k. k \<notin> Row_Id ` set [?row] \<longrightarrow> Get c' k = Get New k"
    and dec: "\<forall>pre row post. [?row] = pre @ row # post \<and> Row_Id row \<notin> Row_Id ` set post \<longrightarrow>
                 (\<exists>obj fs. ObjectAuto_sample (Row_Obj row) = Inr obj \<and>
                           Get c' (Row_Id row) = (Some obj, fs, True) \<and>
                           (Row_Values row \<noteq> [] \<longrightarrow> fs = Row_Values row))"
    by force
  from oth gb have 2: "Get c' ''b'' = (None, [], False)" by simp
  from dec [rule_format, of "[]" ?row "[]"] o
  have 3: "Get c' ''a'' = (Some (point_at (1/2) (1/2)), [1, 2], True)" by simp
  from fm have 4: "fieldMap c' = []" by (simp add: New_def)
  from e p o w r 1 u 2 3 4 show ?thesis by blast
qed

text \<open>
  The document \<open>doc_no_fields\<close> has no \<^verbatim>\<open>fields\<close> member; it is decoded without error, the
  values of its row being the field vector of the item.
\<close>

theorem missing_fields_counterexample:
  "json_Unmarshal_sample doc_no_fields \<lparr>Rows = [], Fields = None\<rparr>
     = Inr \<lparr>Rows = [\<lparr>Row_Id = ''a'', Row_Obj = ''point'', Row_Values = [1, 2]\<rparr>], Fields = None\<rparr> \<and>
   UnmarshalJSON json_Unmarshal_sample ObjectAuto_sample 24 New (Some doc_no_fields) = Inr (col_12, None) \<and>
   Get col_12 ''a'' = (Some (point_at (1/2) (1/2)), [1, 2], True)"
  using decode_doc_no_fields
  by (simp add: json_Unmarshal_sample_def Get_def btree_Get_def col_12_def col_a_def)

lemma roi_b:
  "ReplaceOrInsert 24 col_a1 ''b'' (point_at (1/2) (1/2)) None [] = Inr (col_a1b, None, (\<lambda>cap. []), [])"
  by (simp add: ReplaceOrInsert_def remove_def insert_item_def btree_Get_def btree_Delete_def
      btree_ReplaceOrInsert_def point_at_def col_a_def col_a1_def col_a1b_def Let_def)

text \<open>
  \<^verbatim>\<open>oldFields\<close> has the array of the fields of the new item: replacing the item \<open>a\<close>, whose
  field \<open>speed\<close> is 10, with the value 20 for \<open>speed\<close>, the caller reads 20 in the old fields.
\<close>

lemma ReplaceOrInsert_old_fields_shared:
  "case ReplaceOrInsert 24 col_a1 ''a'' (point_at (1/2) (1/2)) (Some [''speed'']) [20] of
     Inl e \<Rightarrow> False
   | Inr (c', oldObject, oldFields, newFields) \<Rightarrow>
       oldObject = Some (point_at (1/2) (1/2)) \<and> oldFields 1 = [20] \<and> newFields = [20]"
  by (simp add: ReplaceOrInsert_def remove_def insert_item_def btree_Get_def btree_Delete_def
        btree_ReplaceOrInsert_def point_at_def col_a_def col_a1_def
        setField_unfold slot_of_def assign_slot_def extend_fields_eq put_item_def Let_def)

text \<open>
  C5 at a collection in which the item \<open>b\<close> has no field while the registry has one name:
  the snapshot has the name array \<open>[speed]\<close> and an empty \<open>values\<close> for \<open>b\<close>, and decoding
  it into an empty collection panics at \<^verbatim>\<open>values[i]\<close> in the row of \<open>b\<close>.
\<close>

theorem snapshot_roundtrip_panics:
  "reachable 24 col_a1b \<and>
   to_portable objJSON_sample col_a1b =
     Inr \<lparr>Rows = [\<lparr>Row_Id = ''a'', Row_Obj = ''point'', Row_Values = [10]\<rparr>,
                 \<lparr>Row_Id = ''b'', Row_Obj = ''point'', Row_Values = []\<rparr>],
          Fields = Some [''speed'']\<rparr> \<and>
   restore_rows ObjectAuto_sample 24 New
     [\<lparr>Row_Id = ''a'', Row_Obj = ''point'', Row_Values = [10]\<rparr>,
      \<lparr>Row_Id = ''b'', Row_Obj = ''point'', Row_Values = []\<rparr>] (Some [''speed''])
     = Inl (IndexOutOfRange, col_a1b)"
proof -
  have r: "reachable 24 col_a1b"
    by (rule reach_ReplaceOrInsert [OF reach_SetField [OF reach_ReplaceOrInsert [OF reach_New roi_a]
          SetField_a_speed] roi_b])
  have p: "to_portable objJSON_sample col_a1b =
     Inr \<lparr>Rows = [\<lparr>Row_Id = ''a'', Row_Obj = ''point'', Row_Values = [10]\<rparr>,
                 \<lparr>Row_Id = ''b'', Row_Obj = ''point'', Row_Values = []\<rparr>],
          Fields = Some [''speed'']\<rparr>"
    by (simp add: to_portable_def portable_rows_def Scan_def Count_def FieldArr_def
        objJSON_sample_def point_at_def col_a1b_def Let_def numeral_2_eq_2)
  have d: "restore_rows ObjectAuto_sample 24 New
     [\<lparr>Row_Id = ''a'', Row_Obj = ''point'', Row_Values = [10]\<rparr>,
      \<lparr>Row_Id = ''b'', Row_Obj = ''point'', Row_Values = []\<rparr>] (Some [''speed''])
     = Inl (IndexOutOfRange, col_a1b)"
    by (simp add: ObjectAuto_sample_def ReplaceOrInsert_def remove_def insert_item_def New_def
        btree_Get_def btree_Delete_def btree_ReplaceOrInsert_def point_at_def col_a1b_def
        setField_unfold slot_of_def assign_slot_def extend_fields_eq put_item_def Let_def)
  from r p d show ?thesis by simp
qed

end
